theory Spec2Isabelle
  imports Complex_Main "HOL-Library.Word" "HOL-Library.AList"
begin

unbundle bit_operations_syntax

chapter \<open>The Omni-Dromenon engine: generator, scheduler, OSC bridge, consensus\<close>

text \<open>
  A shallow embedding of the four server modules. Conventions used throughout:
  \<^item> a finite JavaScript number is a \<open>real\<close>, and \<open>NaN\<close> is modelled where the code
    can meet it (the scheduler and the consensus state); the infinities are left out.
    The scheduler's arithmetic is rounded to doubles (\<open>fl\<close>); the arithmetic of the
    consensus engine, which goes through \<open>Math.exp\<close>, is taken as exact;
  \<^item> \<open>Date.now()\<close> is an explicit argument \<open>clock\<close> of every function that reads it;
  \<^item> a \<open>throw\<close> is the \<open>Inl\<close> branch of a sum; a method that mutates \<open>this\<close> takes
    the object and returns the new one;
  \<^item> a plain object or a \<open>Map\<close> is an association list in insertion order, written
    with \<open>AList.update\<close> (an existing key keeps its place, a new key goes last) and
    read with \<open>map_of\<close>.
\<close>

section \<open>Values and errors\<close>

datatype error = Error string | TypeError string

text \<open>
  The values an untyped caller can pass. An object carries its own enumerable
  properties, all numbers (the shape \<open>{ mood: 0.7, tempo: 0.3 }\<close>); arrays and
  functions are left out.
\<close>

datatype jsval =
    JUndefined
  | JNull
  | JBool bool
  | JNum real
  | JStr string
  | JObj "(string \<times> real) list"

fun truthy :: "jsval \<Rightarrow> bool" where
  "truthy JUndefined = False"
| "truthy JNull = False"
| "truthy (JBool b) = b"
| "truthy (JNum r) = (r \<noteq> 0)"
| "truthy (JStr s) = (s \<noteq> [])"
| "truthy (JObj kvs) = True"

text \<open>The \<open>typeof\<close> operator; \<open>typeof null\<close> is \<open>"object"\<close>.\<close>

fun typeof :: "jsval \<Rightarrow> string" where
  "typeof JUndefined = ''undefined''"
| "typeof JNull = ''object''"
| "typeof (JBool b) = ''boolean''"
| "typeof (JNum r) = ''number''"
| "typeof (JStr s) = ''string''"
| "typeof (JObj kvs) = ''object''"

text \<open>
  Property read \<open>v[name]\<close> for a name that is not a member of a prototype: it throws
  on \<open>null\<close> and \<open>undefined\<close>, and yields \<open>undefined\<close> (\<open>None\<close>) where the
  property is missing.
\<close>

fun getProperty :: "jsval \<Rightarrow> string \<Rightarrow> error + real option" where
  "getProperty JUndefined name = Inl (TypeError ''Cannot read properties of undefined'')"
| "getProperty JNull name = Inl (TypeError ''Cannot read properties of null'')"
| "getProperty (JObj kvs) name = Inr (map_of kvs name)"
| "getProperty v name = Inr None"

text \<open>\<open>x || Date.now()\<close> for an optional numeric argument: \<open>undefined\<close> and \<open>0\<close> are falsy.\<close>

definition orNow :: "real option \<Rightarrow> real \<Rightarrow> real" where
  "orNow x clock = (case x of None \<Rightarrow> clock | Some t \<Rightarrow> if t \<noteq> 0 then t else clock)"

text \<open>\<open>Array.prototype.forEach\<close> with a body that may throw: the first throw ends the loop.\<close>

fun forEach :: "('a \<Rightarrow> 's \<Rightarrow> error + 's) \<Rightarrow> 'a list \<Rightarrow> 's \<Rightarrow> error + 's" where
  "forEach f [] s = Inr s"
| "forEach f (x # xs) s = (case f x s of Inl e \<Rightarrow> Inl e | Inr s' \<Rightarrow> forEach f xs s')"

text \<open>\<open>Array.prototype.map\<close> with a callback that may throw.\<close>

fun mapThrowing :: "('a \<Rightarrow> error + 'b) \<Rightarrow> 'a list \<Rightarrow> error + 'b list" where
  "mapThrowing f [] = Inr []"
| "mapThrowing f (x # xs) =
     (case f x of
        Inl e \<Rightarrow> Inl e
      | Inr y \<Rightarrow> (case mapThrowing f xs of Inl e \<Rightarrow> Inl e | Inr ys \<Rightarrow> Inr (y # ys)))"

section \<open>Numbers\<close>

text \<open>
  A number as the scheduler and the consensus state hold it: a finite number, or
  \<open>NaN\<close>, which every operation hands on and every comparison answers with \<open>false\<close>.
  (Arithmetic on \<open>undefined\<close> or on a function gives \<open>NaN\<close>.) The infinities are
  left out.
\<close>

datatype jsnum = Num real | NaN

fun num2 :: "(real \<Rightarrow> real \<Rightarrow> real) \<Rightarrow> jsnum \<Rightarrow> jsnum \<Rightarrow> jsnum" where
  "num2 f (Num a) (Num b) = Num (f a b)"
| "num2 f a b = NaN"

fun num1 :: "(real \<Rightarrow> real) \<Rightarrow> jsnum \<Rightarrow> jsnum" where
  "num1 f (Num a) = Num (f a)"
| "num1 f NaN = NaN"

fun numGreater :: "jsnum \<Rightarrow> real \<Rightarrow> bool" where
  "numGreater (Num a) b = (a > b)"
| "numGreater NaN b = False"

fun numLess :: "jsnum \<Rightarrow> real \<Rightarrow> bool" where
  "numLess (Num a) b = (a < b)"
| "numLess NaN b = False"

fun isNum :: "jsnum \<Rightarrow> bool" where
  "isNum (Num a) = True"
| "isNum NaN = False"

subsection \<open>Rounding to a double\<close>

text \<open>
  The scheduler's arithmetic is modelled with its rounding: \<open>fl x\<close> is the double
  nearest to \<open>x\<close>, the one with the even significand on a tie (binary64: a significand
  of 53 bits, rounding to nearest, ties to even). The exponent has no bounds here: where
  a result of the code overflows to an infinity (beyond about \<open>1.8e308\<close>) or is
  subnormal (below about \<open>2.2e-308\<close>, with fewer than 53 bits), \<open>fl\<close> keeps a finite
  number of 53 bits. \<open>roundEven\<close> rounds to the nearest integer, to the even one on a
  tie.
\<close>

definition roundEven :: "real \<Rightarrow> int" where
  "roundEven y =
     (let n = \<lfloor>y\<rfloor>; r = y - of_int n
      in if r < 1 / 2 then n else if r > 1 / 2 then n + 1 else if even n then n else n + 1)"

definition fl :: "real \<Rightarrow> real" where
  "fl x =
     (if x = 0 then 0
      else let u = 2 powr (of_int \<lfloor>log 2 \<bar>x\<bar>\<rfloor> - 52)
           in of_int (roundEven (x / u)) * u)"

text \<open>The unit in the last place of the double nearest to \<open>x\<close>.\<close>

definition ulp :: "real \<Rightarrow> real" where
  "ulp x = 2 powr (of_int \<lfloor>log 2 \<bar>x\<bar>\<rfloor> - 52)"

text \<open>
  The names every object inherits from \<open>Object.prototype\<close>: a read \<open>obj[name]\<close> of one
  of them that is not an own property gives a function (or, for \<open>__proto__\<close>, the
  prototype), never \<open>undefined\<close>; as an operand of arithmetic that value is \<open>NaN\<close>.
\<close>

definition objectPrototypeNames :: "string list" where
  "objectPrototypeNames =
     [''constructor'', ''__defineGetter__'', ''__defineSetter__'', ''hasOwnProperty'',
      ''__lookupGetter__'', ''__lookupSetter__'', ''isPrototypeOf'',
      ''propertyIsEnumerable'', ''toString'', ''valueOf'', ''__proto__'',
      ''toLocaleString'']"

section \<open>Generator (generator.js)\<close>

subsection \<open>seededRandom\<close>

text \<open>
  \<open>seed | 0\<close>: the seed is truncated towards zero and reduced modulo \<open>2^32\<close>. The
  closure variable \<open>s\<close> and the temporaries \<open>t\<close> are 32-bit integers: every
  operation of the body (\<open>| 0\<close>, \<open>^\<close>, \<open>>>>\<close>, \<open>Math.imul\<close>) reduces its result
  modulo \<open>2^32\<close>, and the one plain addition is reduced by the \<open>^\<close> that follows it.
\<close>

definition toInt32 :: "real \<Rightarrow> 32 word" where
  "toInt32 x = word_of_int (if 0 \<le> x then \<lfloor>x\<rfloor> else \<lceil>x\<rceil>)"

definition imul :: "32 word \<Rightarrow> 32 word \<Rightarrow> 32 word" where
  "imul a b = a * b"

text \<open>\<open>seededRandom seed\<close> is the state \<open>s\<close> the returned closure starts with.\<close>

definition seededRandom :: "real \<Rightarrow> 32 word" where
  "seededRandom seed = toInt32 seed"

text \<open>One call of the closure: the float returned and the new \<open>s\<close>.\<close>

definition rand :: "32 word \<Rightarrow> real \<times> 32 word" where
  "rand s0 =
     (let s = s0 + 1831565813;
          t = imul (s XOR drop_bit 15 s) (1 OR s);
          t' = (t + imul (t XOR drop_bit 7 t) (61 OR t)) XOR t
      in (real (unat (t' XOR drop_bit 14 t')) / 4294967296, s))"

text \<open>The results of the first \<open>n\<close> calls of a generator whose state is \<open>s\<close>.\<close>

fun randCalls :: "32 word \<Rightarrow> nat \<Rightarrow> real list" where
  "randCalls s 0 = []"
| "randCalls s (Suc n) = (case rand s of (v, s') \<Rightarrow> v # randCalls s' n)"

subsection \<open>clampMidi and applyRecursion\<close>

text \<open>\<open>Math.round\<close> is \<open>\<lfloor>x + 1/2\<rfloor>\<close>, which is \<^const>\<open>round\<close>.\<close>

definition clampMidi :: "real \<Rightarrow> real" where
  "clampMidi n = max 0 (min 127 (of_int (round n)))"

text \<open>The three notes pushed for position \<open>i\<close> of the pass over \<open>current\<close>.\<close>

definition motif :: "real list \<Rightarrow> nat \<Rightarrow> real list" where
  "motif current i =
     (let n = current ! i;
          next = current ! ((i + 1) mod length current);
          interval = next - n;
          midNote = clampMidi (n + of_int \<lfloor>interval / 2\<rfloor>)
      in [n, midNote, n])"

text \<open>One pass of the outer loop: the inner loop over \<open>i = 0 ..< current.length\<close>.\<close>

definition expand :: "real list \<Rightarrow> real list" where
  "expand current = concat (map (motif current) [0..<length current])"

text \<open>The outer loop, \<open>d\<close> passes.\<close>

fun passes :: "nat \<Rightarrow> real list \<Rightarrow> real list" where
  "passes 0 current = current"
| "passes (Suc d) current = passes d (expand current)"

definition applyRecursion :: "real list \<Rightarrow> int \<Rightarrow> error + real list" where
  "applyRecursion sequence depth =
     (if depth < 0 then Inl (Error ''Recursion depth must be >= 0'')
      else if depth = 0 then Inr sequence
      else Inr (passes (nat depth) sequence))"

definition transpose_seq :: "real list \<Rightarrow> real \<Rightarrow> real list" where
  "transpose_seq sequence semitones = map (\<lambda>n. clampMidi (n + semitones)) sequence"

text \<open>The MIDI range, as a predicate on a note.\<close>

definition midiRange :: "real \<Rightarrow> bool" where
  "midiRange n \<longleftrightarrow> 0 \<le> n \<and> n \<le> 127"

section \<open>Scheduler (scheduler.js)\<close>

text \<open>
  The table of multipliers. \<open>2 / 3\<close> and \<open>1 / 3\<close> are the doubles the two divisions
  give; the other seven are doubles as written.
\<close>

definition SUBDIVISIONS :: "(string \<times> real) list" where
  "SUBDIVISIONS =
     [(''whole'', 4),
      (''half'', 2),
      (''quarter'', 1),
      (''eighth'', 0.5),
      (''sixteenth'', 0.25),
      (''triplet_quarter'', fl (2 / 3)),
      (''triplet_eighth'', fl (1 / 3)),
      (''dotted_quarter'', 1.5),
      (''dotted_eighth'', 0.75)]"

text \<open>An event \<open>{ note, time, duration, velocity }\<close>.\<close>

record ScheduledEvent =
  ev_note :: jsnum
  ev_time :: jsnum
  ev_duration :: jsnum
  ev_velocity :: jsnum

text \<open>
  The fields \<open>_bpm\<close>, \<open>_beatDurationMs\<close>, \<open>_scheduledNotes\<close>, \<open>_nextBeatIndex\<close> and
  \<open>_startTime\<close> (which is \<open>null\<close> and never written).
\<close>

record Scheduler =
  bpm :: jsnum
  beatDurationMs :: jsnum
  scheduledNotes :: "ScheduledEvent list"
  nextBeatIndex :: nat
  startTime :: "real option"

text \<open>
  \<open>setBPM\<close>: the argument is a number (\<open>typeof bpm === 'number'\<close>), and \<open>NaN\<close> is
  one; both comparisons are false for it. The beat is \<open>(60 / bpm) * 1000\<close>, each
  operation rounded.
\<close>

definition setBPM :: "Scheduler \<Rightarrow> jsnum \<Rightarrow> error + Scheduler" where
  "setBPM s b =
     (if numLess b 20 \<or> numGreater b 300 then Inl (Error ''BPM must be between 20 and 300'')
      else Inr (s\<lparr>bpm := b,
                 beatDurationMs :=
                   num2 (\<lambda>x y. fl (x * y)) (num1 (\<lambda>x. fl (60 / x)) b) (Num 1000)\<rparr>))"

text \<open>The constructor; its argument is optional.\<close>

definition newScheduler :: "jsnum option \<Rightarrow> error + Scheduler" where
  "newScheduler b =
     (let s = \<lparr>bpm = Num 120, beatDurationMs = Num 500, scheduledNotes = [],
                nextBeatIndex = 0, startTime = None\<rparr>
      in case b of None \<Rightarrow> Inr s | Some b' \<Rightarrow> setBPM s b')"

definition getBPM :: "Scheduler \<Rightarrow> jsnum" where
  "getBPM s = bpm s"

definition getBeatDuration :: "Scheduler \<Rightarrow> jsnum" where
  "getBeatDuration s = beatDurationMs s"

text \<open>
  \<open>getSubdivisionDuration\<close> reads \<open>SUBDIVISIONS[subdivision]\<close> and throws when that is
  \<open>undefined\<close>. For a name of \<open>Object.prototype\<close> it is not: the multiplier is then a
  function, and the product is \<open>NaN\<close>.
\<close>

definition getSubdivisionDuration :: "Scheduler \<Rightarrow> string \<Rightarrow> error + jsnum" where
  "getSubdivisionDuration s subdivision =
     (case map_of SUBDIVISIONS subdivision of
        Some multiplier \<Rightarrow> Inr (num2 (\<lambda>x y. fl (x * y)) (beatDurationMs s) (Num multiplier))
      | None \<Rightarrow>
          if subdivision \<in> set objectPrototypeNames then Inr NaN
          else Inl (Error ''Unknown subdivision''))"

text \<open>
  \<open>Array.prototype.sort\<close> with the comparator \<open>a.time - b.time\<close>. The sort is stable,
  and a comparator result of \<open>NaN\<close> counts as \<open>0\<close>. On times that are numbers the
  comparator is consistent and the result is the stable sort by time, which is what the
  insertion below computes; so it is when every comparison gives \<open>NaN\<close> or \<open>0\<close> (the
  list stays as it is). On a list in which a \<open>NaN\<close> time meets two different times
  the comparator is inconsistent and the language leaves the order to the
  implementation; no statement below evaluates such a list.
\<close>

definition comparator :: "ScheduledEvent \<Rightarrow> ScheduledEvent \<Rightarrow> jsnum" where
  "comparator a b = num2 (\<lambda>x y. fl (x - y)) (ev_time a) (ev_time b)"

fun insertByTime :: "ScheduledEvent \<Rightarrow> ScheduledEvent list \<Rightarrow> ScheduledEvent list" where
  "insertByTime e [] = [e]"
| "insertByTime e (x # xs) =
     (if numGreater (comparator e x) 0 then x # insertByTime e xs else e # x # xs)"

definition sortByTime :: "ScheduledEvent list \<Rightarrow> ScheduledEvent list" where
  "sortByTime evs = foldr insertByTime evs []"

text \<open>
  \<open>scheduleNote\<close> returns the event and pushes it. \<open>note\<close> and \<open>time\<close> are numbers
  (the two \<open>typeof\<close> tests), and \<open>NaN\<close> is one: it fails none of the three
  comparisons. \<open>duration\<close> and \<open>velocity\<close> are optional and stored as they come.
  The event returned is the object that is stored; a client that writes to it afterwards
  is outside this model.
\<close>

definition scheduleNote ::
  "Scheduler \<Rightarrow> jsnum \<Rightarrow> jsnum \<Rightarrow> jsnum option \<Rightarrow> jsnum option \<Rightarrow>
     error + ScheduledEvent \<times> Scheduler"
where
  "scheduleNote s n t duration velocity =
     (if numLess n 0 \<or> numGreater n 127 then Inl (Error ''Invalid MIDI note'')
      else if numLess t 0 then Inl (Error ''Time must be a non-negative number'')
      else
        let event = \<lparr>ev_note = n, ev_time = t,
                      ev_duration = (case duration of Some d \<Rightarrow> d | None \<Rightarrow> beatDurationMs s),
                      ev_velocity = (case velocity of Some v \<Rightarrow> v | None \<Rightarrow> Num 100)\<rparr>
        in Inr (event, s\<lparr>scheduledNotes := sortByTime (scheduledNotes s @ [event])\<rparr>))"

text \<open>\<open>subdivision || 'quarter'\<close>: \<open>undefined\<close> and the empty string are falsy.\<close>

definition orQuarter :: "string option \<Rightarrow> string" where
  "orQuarter subdivision =
     (case subdivision of None \<Rightarrow> ''quarter'' | Some sub \<Rightarrow> if sub \<noteq> [] then sub else ''quarter'')"

definition scheduleAtBeat ::
  "Scheduler \<Rightarrow> jsnum \<Rightarrow> jsnum \<Rightarrow> string option \<Rightarrow> jsnum option \<Rightarrow>
     error + ScheduledEvent \<times> Scheduler"
where
  "scheduleAtBeat s n beat subdivision velocity =
     (let t = num2 (\<lambda>x y. fl (x * y)) (num2 (\<lambda>x y. fl (x - y)) beat (Num 1))
                (beatDurationMs s);
          sub = orQuarter subdivision
      in case getSubdivisionDuration s sub of
           Inl e \<Rightarrow> Inl e
         | Inr duration \<Rightarrow> scheduleNote s n t (Some duration) velocity)"

definition getNextBeat :: "Scheduler \<Rightarrow> jsnum \<times> Scheduler" where
  "getNextBeat s =
     (let t = num2 (\<lambda>x y. fl (x * y)) (Num (real (nextBeatIndex s))) (beatDurationMs s)
      in (t, s\<lparr>nextBeatIndex := nextBeatIndex s + 1\<rparr>))"

definition resetBeatCounter :: "Scheduler \<Rightarrow> Scheduler" where
  "resetBeatCounter s = s\<lparr>nextBeatIndex := 0\<rparr>"

text \<open>
  \<open>Math.round(time / gridSize) * gridSize\<close>. \<open>Math.round\<close> is exact: it gives
  \<open>\<lfloor>x + 1/2\<rfloor>\<close>, which is \<^const>\<open>round\<close>; the division and the product are rounded.
  With a grid of \<open>0\<close> the quotient is an infinity or \<open>NaN\<close>, \<open>Math.round\<close> keeps it,
  and its product with \<open>0\<close> is \<open>NaN\<close>.
\<close>

fun roundToGrid :: "jsnum \<Rightarrow> jsnum \<Rightarrow> jsnum" where
  "roundToGrid (Num t) (Num g) =
     (if g = 0 then NaN else Num (fl (of_int (round (fl (t / g))) * g)))"
| "roundToGrid t g = NaN"

definition quantize :: "Scheduler \<Rightarrow> jsnum \<Rightarrow> string option \<Rightarrow> error + jsnum" where
  "quantize s t subdivision =
     (let sub = orQuarter subdivision
      in case getSubdivisionDuration s sub of
           Inl e \<Rightarrow> Inl e
         | Inr gridSize \<Rightarrow> Inr (roundToGrid t gridSize))"

definition getSchedule :: "Scheduler \<Rightarrow> ScheduledEvent list" where
  "getSchedule s = scheduledNotes s"

text \<open>
  \<open>quantizeAll\<close>: a throw of \<open>quantize\<close> inside \<open>map\<close> comes before the assignment
  to \<open>_scheduledNotes\<close>; on an empty schedule \<open>quantize\<close> is never called.
\<close>

definition quantizeAll :: "Scheduler \<Rightarrow> string option \<Rightarrow> error + ScheduledEvent list \<times> Scheduler" where
  "quantizeAll s subdivision =
     (case mapThrowing
             (\<lambda>event. case quantize s (ev_time event) subdivision of
                         Inl e \<Rightarrow> Inl e
                       | Inr t \<Rightarrow> Inr (event\<lparr>ev_time := t\<rparr>))
             (scheduledNotes s) of
        Inl e \<Rightarrow> Inl e
      | Inr evs \<Rightarrow>
          (let s' = s\<lparr>scheduledNotes := sortByTime evs\<rparr> in Inr (getSchedule s', s')))"

definition getTotalDuration :: "Scheduler \<Rightarrow> jsnum" where
  "getTotalDuration s =
     (if scheduledNotes s = [] then Num 0
      else let l = last (scheduledNotes s)
           in num2 (\<lambda>x y. fl (x + y)) (ev_time l) (ev_duration l))"

definition clear :: "Scheduler \<Rightarrow> Scheduler" where
  "clear s = s\<lparr>scheduledNotes := [], nextBeatIndex := 0\<rparr>"

text \<open>
  A client's calls of the mutating methods. A call that throws has written nothing
  (every \<open>throw\<close> above precedes the first assignment), so a client that catches the
  error goes on from the scheduler it had.
\<close>

datatype schedulerCall =
    SetBPM jsnum
  | ScheduleNote jsnum jsnum "jsnum option" "jsnum option"
  | ScheduleAtBeat jsnum jsnum "string option" "jsnum option"
  | QuantizeAll "string option"
  | Clear

fun schedulerStep :: "Scheduler \<Rightarrow> schedulerCall \<Rightarrow> error + Scheduler" where
  "schedulerStep s (SetBPM b) = setBPM s b"
| "schedulerStep s (ScheduleNote n t d v) =
     (case scheduleNote s n t d v of Inl e \<Rightarrow> Inl e | Inr (ev, s') \<Rightarrow> Inr s')"
| "schedulerStep s (ScheduleAtBeat n beat sub v) =
     (case scheduleAtBeat s n beat sub v of Inl e \<Rightarrow> Inl e | Inr (ev, s') \<Rightarrow> Inr s')"
| "schedulerStep s (QuantizeAll sub) =
     (case quantizeAll s sub of Inl e \<Rightarrow> Inl e | Inr (evs, s') \<Rightarrow> Inr s')"
| "schedulerStep s Clear = Inr (clear s)"

fun schedulerRun :: "Scheduler \<Rightarrow> schedulerCall list \<Rightarrow> Scheduler" where
  "schedulerRun s [] = s"
| "schedulerRun s (c # cs) =
     schedulerRun (case schedulerStep s c of Inl e \<Rightarrow> s | Inr s' \<Rightarrow> s') cs"

text \<open>
  A list of times is non-decreasing when each is at most the next; a comparison with
  \<open>NaN\<close> is false.
\<close>

fun numLe :: "jsnum \<Rightarrow> jsnum \<Rightarrow> bool" where
  "numLe (Num a) (Num b) = (a \<le> b)"
| "numLe a b = False"

fun nonDecreasing :: "jsnum list \<Rightarrow> bool" where
  "nonDecreasing (a # b # xs) = (numLe a b \<and> nonDecreasing (b # xs))"
| "nonDecreasing xs = True"

text \<open>
  The calls whose arguments the two slips of the validation do not concern: every
  number passed is finite (not \<open>NaN\<close>, which the range tests let through), and no
  subdivision is a name of \<open>Object.prototype\<close> (which the test for an unknown
  subdivision lets through).
\<close>

fun finiteCall :: "schedulerCall \<Rightarrow> bool" where
  "finiteCall (SetBPM b) = isNum b"
| "finiteCall (ScheduleNote n t d v) = (isNum n \<and> isNum t)"
| "finiteCall (ScheduleAtBeat n beat sub v) =
     (isNum n \<and> isNum beat \<and> orQuarter sub \<notin> set objectPrototypeNames)"
| "finiteCall (QuantizeAll sub) = (orQuarter sub \<notin> set objectPrototypeNames)"
| "finiteCall Clear = True"

text \<open>The ScheduledEvent invariant of the data model, field by field.\<close>

fun midiNum :: "jsnum \<Rightarrow> bool" where
  "midiNum (Num n) = midiRange n"
| "midiNum NaN = False"

fun numAtLeast :: "jsnum \<Rightarrow> real \<Rightarrow> bool" where
  "numAtLeast (Num a) b = (a \<ge> b)"
| "numAtLeast NaN b = False"

definition noteTimeOk :: "ScheduledEvent \<Rightarrow> bool" where
  "noteTimeOk e \<longleftrightarrow> midiNum (ev_note e) \<and> numAtLeast (ev_time e) 0"

definition durationVelocityOk :: "ScheduledEvent \<Rightarrow> bool" where
  "durationVelocityOk e \<longleftrightarrow> numGreater (ev_duration e) 0 \<and> midiNum (ev_velocity e)"

text \<open>
  What a call supplies for the two unvalidated fields: a duration, when given, is
  positive, and a velocity, when given, is a MIDI velocity.
\<close>

fun suppliedArgsOk :: "schedulerCall \<Rightarrow> bool" where
  "suppliedArgsOk (ScheduleNote n t d v) =
     ((case d of None \<Rightarrow> True | Some d' \<Rightarrow> numGreater d' 0) \<and>
      (case v of None \<Rightarrow> True | Some v' \<Rightarrow> midiNum v'))"
| "suppliedArgsOk (ScheduleAtBeat n beat sub v) =
     (case v of None \<Rightarrow> True | Some v' \<Rightarrow> midiNum v')"
| "suppliedArgsOk c = True"

text \<open>
  The invariant the scheduler keeps on such calls: a positive beat, a schedule sorted by
  time, and validated notes and times.
\<close>

definition schedulerInv :: "Scheduler \<Rightarrow> bool" where
  "schedulerInv s \<longleftrightarrow>
     numGreater (beatDurationMs s) 0
     \<and> nonDecreasing (map ev_time (scheduledNotes s))
     \<and> list_all noteTimeOk (scheduledNotes s)"

text \<open>The time of an event whose time is a number.\<close>

definition timeOf :: "ScheduledEvent \<Rightarrow> real" where
  "timeOf e = (case ev_time e of Num t \<Rightarrow> t | NaN \<Rightarrow> 0)"

text \<open>The scheduler \<open>new Scheduler()\<close> builds.\<close>

definition scheduler120 :: Scheduler where
  "scheduler120 =
     \<lparr>bpm = Num 120, beatDurationMs = Num 500, scheduledNotes = [], nextBeatIndex = 0,
      startTime = None\<rparr>"

section \<open>OSC bridge (osc-bridge.js)\<close>

text \<open>A message \<open>{ address, typeTag, value, timestamp }\<close>.\<close>

record OSCMessage =
  address :: string
  typeTag :: string
  msg_value :: jsval
  timestamp :: real

record OSCBundle =
  timetag :: real
  messages :: "OSCMessage list"

text \<open>\<open>Number.isInteger\<close> on a finite number.\<close>

definition isInteger :: "real \<Rightarrow> bool" where
  "isInteger r \<longleftrightarrow> of_int \<lfloor>r\<rfloor> = r"

definition formatMessage :: "real \<Rightarrow> string \<Rightarrow> jsval \<Rightarrow> error + OSCMessage" where
  "formatMessage clock addr v =
     (if \<not> (case addr of [] \<Rightarrow> False | c # cs \<Rightarrow> c = CHR ''/'')
      then Inl (Error ''Invalid OSC address'')
      else case v of
             JNum r \<Rightarrow>
               Inr \<lparr>address = addr, typeTag = (if isInteger r then ''i'' else ''f''),
                    msg_value = JNum r, timestamp = clock\<rparr>
           | JStr str \<Rightarrow>
               Inr \<lparr>address = addr, typeTag = ''s'', msg_value = JStr str, timestamp = clock\<rparr>
           | JBool b \<Rightarrow>
               Inr \<lparr>address = addr, typeTag = (if b then ''T'' else ''F''),
                    msg_value = JNum (if b then 1 else 0), timestamp = clock\<rparr>
           | _ \<Rightarrow> Inl (Error ''Unsupported OSC value type''))"

text \<open>\<open>prefix || '/omni'\<close>.\<close>

definition orOmni :: "string option \<Rightarrow> string" where
  "orOmni p = (case p of None \<Rightarrow> ''/omni'' | Some q \<Rightarrow> if q \<noteq> [] then q else ''/omni'')"

text \<open>The state object passed to \<open>formatBundle\<close> may hold values of any kind.\<close>

definition formatBundle :: "real \<Rightarrow> (string \<times> jsval) list \<Rightarrow> string option \<Rightarrow> error + OSCBundle" where
  "formatBundle clock st p =
     (let pre = orOmni p
      in case forEach
                (\<lambda>(param, v) msgs.
                   if typeof v = ''number''
                   then (case formatMessage clock (pre @ ''/'' @ param) v of
                           Inl e \<Rightarrow> Inl e
                         | Inr m \<Rightarrow> Inr (msgs @ [m]))
                   else Inr msgs)
                st [] of
           Inl e \<Rightarrow> Inl e
         | Inr msgs \<Rightarrow> Inr \<lparr>timetag = clock, messages = msgs\<rparr>)"

datatype BridgeState = DISCONNECTED | CONNECTING | CONNECTED | ERROR

text \<open>
  The bridge object. \<open>bridge_state\<close> is the field \<open>this.state\<close>; \<open>lastError\<close> holds the
  message of the stored \<open>Error\<close>, without the host and port it goes on with. The
  optional callback \<open>onSend\<close> is the client's code: it is handed each message and is
  taken not to call back into the bridge, so it is not part of the object modelled here.
\<close>

record OSCBridge =
  host :: string
  port :: real
  prefix :: string
  bridge_state :: BridgeState
  messageCount :: nat
  lastError :: "string option"
  messageLog :: "OSCMessage list"

record BridgeOptions =
  opt_host :: "string option"
  opt_port :: "real option"
  opt_prefix :: "string option"

text \<open>The constructor: each option falls back to its default when it is falsy.\<close>

definition newOSCBridge :: "BridgeOptions \<Rightarrow> OSCBridge" where
  "newOSCBridge options =
     \<lparr>host = (case opt_host options of None \<Rightarrow> ''127.0.0.1''
               | Some h \<Rightarrow> if h \<noteq> [] then h else ''127.0.0.1''),
      port = (case opt_port options of None \<Rightarrow> 57120
               | Some p \<Rightarrow> if p \<noteq> 0 then p else 57120),
      prefix = orOmni (opt_prefix options),
      bridge_state = DISCONNECTED,
      messageCount = 0,
      lastError = None,
      messageLog = []\<rparr>"

text \<open>
  Every method returns, first, the values it assigns to \<open>this.state\<close>, in the order of
  the assignments; then its result; then the bridge it leaves.
\<close>

definition invalidTarget :: "OSCBridge \<Rightarrow> bool" where
  "invalidTarget b \<longleftrightarrow> host b = [] \<or> port b = 0 \<or> port b < 1 \<or> port b > 65535"

definition connect :: "OSCBridge \<Rightarrow> BridgeState list \<times> bool \<times> OSCBridge" where
  "connect b =
     (if bridge_state b = CONNECTED then ([], True, b)
      else
        let b1 = b\<lparr>bridge_state := CONNECTING\<rparr>
        in if invalidTarget b1
           then ([CONNECTING, ERROR], False,
                 b1\<lparr>bridge_state := ERROR, lastError := Some ''Invalid target''\<rparr>)
           else ([CONNECTING, CONNECTED], True, b1\<lparr>bridge_state := CONNECTED\<rparr>))"

definition disconnect :: "OSCBridge \<Rightarrow> BridgeState list \<times> unit \<times> OSCBridge" where
  "disconnect b = ([DISCONNECTED], (), b\<lparr>bridge_state := DISCONNECTED, messageLog := []\<rparr>)"

definition send ::
  "real \<Rightarrow> OSCBridge \<Rightarrow> string \<Rightarrow> jsval \<Rightarrow> error + BridgeState list \<times> OSCMessage option \<times> OSCBridge"
where
  "send clock b param v =
     (if bridge_state b \<noteq> CONNECTED then Inr ([], None, b)
      else case formatMessage clock (prefix b @ ''/'' @ param) v of
             Inl e \<Rightarrow> Inl e
           | Inr msg \<Rightarrow>
               Inr ([], Some msg,
                    b\<lparr>messageCount := messageCount b + 1, messageLog := messageLog b @ [msg]\<rparr>))"

definition sendBundle ::
  "real \<Rightarrow> OSCBridge \<Rightarrow> (string \<times> jsval) list \<Rightarrow>
     error + BridgeState list \<times> OSCBundle option \<times> OSCBridge"
where
  "sendBundle clock b perfState =
     (if bridge_state b \<noteq> CONNECTED then Inr ([], None, b)
      else case formatBundle clock perfState (Some (prefix b)) of
             Inl e \<Rightarrow> Inl e
           | Inr bundle \<Rightarrow>
               Inr ([], Some bundle,
                    b\<lparr>messageCount := messageCount b + length (messages bundle),
                      messageLog := messageLog b @ messages bundle\<rparr>))"

text \<open>\<open>getRecentMessages\<close>: \<open>slice(-count)\<close> with \<open>count || 10\<close>, for a count that is a
  natural number.\<close>

definition getRecentMessages :: "OSCBridge \<Rightarrow> nat option \<Rightarrow> OSCMessage list" where
  "getRecentMessages b count =
     (let c = (case count of None \<Rightarrow> 10 | Some k \<Rightarrow> if k \<noteq> 0 then k else 10)
      in drop (length (messageLog b) - c) (messageLog b))"

text \<open>
  A client's calls, and the run of a list of them. \<open>bridgeStep\<close> gives the assignments
  to \<open>this.state\<close> a call makes and the bridge it leaves; a call that throws has assigned
  nothing. \<open>bridgeTrace\<close> lists every value \<open>this.state\<close> takes during a run, starting
  with the one it has.
\<close>

datatype bridgeCall =
    Connect
  | Disconnect
  | Send real string jsval
  | SendBundle real "(string \<times> jsval) list"
  | GetRecentMessages "nat option"

fun bridgeStep :: "OSCBridge \<Rightarrow> bridgeCall \<Rightarrow> BridgeState list \<times> OSCBridge" where
  "bridgeStep b Connect = (case connect b of (ws, r, b') \<Rightarrow> (ws, b'))"
| "bridgeStep b Disconnect = (case disconnect b of (ws, r, b') \<Rightarrow> (ws, b'))"
| "bridgeStep b (Send clock param v) =
     (case send clock b param v of Inl e \<Rightarrow> ([], b) | Inr (ws, r, b') \<Rightarrow> (ws, b'))"
| "bridgeStep b (SendBundle clock perfState) =
     (case sendBundle clock b perfState of Inl e \<Rightarrow> ([], b) | Inr (ws, r, b') \<Rightarrow> (ws, b'))"
| "bridgeStep b (GetRecentMessages count) = ([], b)"

fun bridgeRun :: "OSCBridge \<Rightarrow> bridgeCall list \<Rightarrow> OSCBridge" where
  "bridgeRun b [] = b"
| "bridgeRun b (c # cs) = bridgeRun (snd (bridgeStep b c)) cs"

fun bridgeWrites :: "OSCBridge \<Rightarrow> bridgeCall list \<Rightarrow> BridgeState list" where
  "bridgeWrites b [] = []"
| "bridgeWrites b (c # cs) = fst (bridgeStep b c) @ bridgeWrites (snd (bridgeStep b c)) cs"

definition bridgeTrace :: "OSCBridge \<Rightarrow> bridgeCall list \<Rightarrow> BridgeState list" where
  "bridgeTrace b cs = bridge_state b # bridgeWrites b cs"

text \<open>
  The transitions of the lifecycle as the specification lists them, and the one more
  that \<open>connect\<close> takes: a retry from \<open>ERROR\<close>.
\<close>

definition listedTransition :: "BridgeState \<times> BridgeState \<Rightarrow> bool" where
  "listedTransition p \<longleftrightarrow>
     p \<in> set [(DISCONNECTED, CONNECTING), (CONNECTING, CONNECTED), (CONNECTING, ERROR),
              (CONNECTED, DISCONNECTED), (ERROR, DISCONNECTED)]"

definition codeTransition :: "BridgeState \<times> BridgeState \<Rightarrow> bool" where
  "codeTransition p \<longleftrightarrow> listedTransition p \<or> p = (ERROR, CONNECTING)"

text \<open>
  A trace moves along the transitions \<open>T\<close> when each value is followed by itself or by
  a value that \<open>T\<close> allows.
\<close>

fun movesAlong :: "(BridgeState \<times> BridgeState \<Rightarrow> bool) \<Rightarrow> BridgeState list \<Rightarrow> bool" where
  "movesAlong T (x # y # zs) = ((x = y \<or> T (x, y)) \<and> movesAlong T (y # zs))"
| "movesAlong T zs = True"

text \<open>
  What holds of a bridge between calls: it is not \<open>CONNECTING\<close>, and it is in \<open>ERROR\<close>
  only with a target that \<open>connect\<close> refuses.
\<close>

definition bridgeInv :: "OSCBridge \<Rightarrow> bool" where
  "bridgeInv b \<longleftrightarrow>
     bridge_state b \<noteq> CONNECTING \<and> (bridge_state b = ERROR \<longrightarrow> invalidTarget b)"

text \<open>Two sets of constructor options: the port \<open>-1\<close>, and the defaults.\<close>

definition badPort :: BridgeOptions where
  "badPort = \<lparr>opt_host = None, opt_port = Some (- 1), opt_prefix = None\<rparr>"

definition noOptions :: BridgeOptions where
  "noOptions = \<lparr>opt_host = None, opt_port = None, opt_prefix = None\<rparr>"

section \<open>Consensus engine (consensus.js)\<close>

record Config =
  INPUT_DECAY_WINDOW_MS :: real
  CONSENSUS_SMOOTHING :: real
  BETA_TEMPORAL :: real
  GAMMA_CONSENSUS :: real
  PARAMETERS :: "string list"

definition DEFAULT_CONFIG :: Config where
  "DEFAULT_CONFIG =
     \<lparr>INPUT_DECAY_WINDOW_MS = 5000,
      CONSENSUS_SMOOTHING = 0.15,
      BETA_TEMPORAL = 0.6,
      GAMMA_CONSENSUS = 0.4,
      PARAMETERS = [''mood'', ''tempo'', ''intensity'', ''density'']\<rparr>"

text \<open>
  An entry of the \<open>inputs\<close> map: \<open>{ timestamp, values }\<close>, with \<open>values\<close> as it came.
  The map's keys are the user ids, compared by value.
\<close>

record Input =
  in_timestamp :: real
  in_values :: jsval

text \<open>\<open>this.state[param]\<close> as an operand of arithmetic.\<close>

definition stateValue :: "(string \<times> jsnum) list \<Rightarrow> string \<Rightarrow> jsnum" where
  "stateValue st param = (case map_of st param of None \<Rightarrow> NaN | Some v \<Rightarrow> v)"

text \<open>
  The \<open>overrides\<close> object holds the flag \<open>active\<close> and, under each parameter's name,
  \<open>null\<close> or a number.
\<close>

datatype oval = OBool bool | ONull | ONum real

fun ovalTruthy :: "oval option \<Rightarrow> bool" where
  "ovalTruthy (Some (OBool b)) = b"
| "ovalTruthy (Some (ONum r)) = (r \<noteq> 0)"
| "ovalTruthy v = False"

record ConsensusEngine =
  config :: Config
  inputs :: "(jsval \<times> Input) list"
  state :: "(string \<times> jsnum) list"
  overrides :: "(string \<times> oval) list"

text \<open>The constructor, applied to the configuration merged with the defaults.\<close>

definition newConsensusEngine :: "Config \<Rightarrow> ConsensusEngine" where
  "newConsensusEngine cfg =
     \<lparr>config = cfg,
      inputs = [],
      state = fold (\<lambda>p st. AList.update p (Num 0.5) st) (PARAMETERS cfg) [],
      overrides = fold (\<lambda>p ov. AList.update p ONull ov) (PARAMETERS cfg)
                    [(''active'', OBool False)]\<rparr>"

definition recordInput ::
  "real \<Rightarrow> ConsensusEngine \<Rightarrow> jsval \<Rightarrow> jsval \<Rightarrow> real option \<Rightarrow> ConsensusEngine"
where
  "recordInput clock e userId vals ts =
     (if \<not> truthy userId \<or> typeof vals \<noteq> ''object'' then e
      else e\<lparr>inputs :=
               AList.update userId \<lparr>in_timestamp = orNow ts clock, in_values = vals\<rparr> (inputs e)\<rparr>)"

definition removeInput :: "ConsensusEngine \<Rightarrow> jsval \<Rightarrow> ConsensusEngine" where
  "removeInput e userId = e\<lparr>inputs := AList.delete userId (inputs e)\<rparr>"

text \<open>
  The body of the inner \<open>forEach\<close> of \<open>calculateConsensus\<close>, on the pair
  \<open>(weightedSum, totalWeight)\<close>.
\<close>

definition accumulate ::
  "Config \<Rightarrow> jsnum \<Rightarrow> real \<Rightarrow> string \<Rightarrow> Input \<Rightarrow> jsnum \<times> jsnum \<Rightarrow> error + jsnum \<times> jsnum"
where
  "accumulate cfg currentValue now param input acc =
     (case getProperty (in_values input) param of
        Inl e \<Rightarrow> Inl e
      | Inr None \<Rightarrow> Inr acc
      | Inr (Some inputValue) \<Rightarrow>
          (let age = now - in_timestamp input
           in if age > INPUT_DECAY_WINDOW_MS cfg then Inr acc
              else
                let temporalWeight =
                      Num (exp ((- age / INPUT_DECAY_WINDOW_MS cfg) * BETA_TEMPORAL cfg));
                    distance = num1 abs (num2 (-) (Num inputValue) currentValue);
                    consensusWeight =
                      num2 (-) (Num 1) (num2 (*) distance (Num (GAMMA_CONSENSUS cfg)));
                    finalWeight = num2 (*) temporalWeight (num2 max (Num 0.1) consensusWeight)
                in Inr (num2 (+) (fst acc) (num2 (*) (Num inputValue) finalWeight),
                        num2 (+) (snd acc) finalWeight)))"

text \<open>
  The body of the outer \<open>forEach\<close>, on the pair \<open>(result, anyResult)\<close>.
\<close>

definition consensusOf ::
  "ConsensusEngine \<Rightarrow> real \<Rightarrow> Input list \<Rightarrow> string \<Rightarrow> (string \<times> jsnum) list \<times> bool \<Rightarrow>
     error + (string \<times> jsnum) list \<times> bool"
where
  "consensusOf e now inputList param acc =
     (case forEach (accumulate (config e) (stateValue (state e) param) now param) inputList
             (Num 0, Num 0) of
        Inl err \<Rightarrow> Inl err
      | Inr (weightedSum, totalWeight) \<Rightarrow>
          if numGreater totalWeight 0
          then Inr (AList.update param (num2 (/) weightedSum totalWeight) (fst acc), True)
          else Inr acc)"

text \<open>\<open>calculateConsensus\<close>: \<open>None\<close> is the result \<open>null\<close>.\<close>

definition calculateConsensus ::
  "real \<Rightarrow> ConsensusEngine \<Rightarrow> real option \<Rightarrow> error + (string \<times> jsnum) list option"
where
  "calculateConsensus clock e now0 =
     (let now = orNow now0 clock;
          inputList = map snd (inputs e)
      in if length inputList = 0 then Inr None
         else case forEach (consensusOf e now inputList) (PARAMETERS (config e)) ([], False) of
                Inl err \<Rightarrow> Inl err
              | Inr (result, anyResult) \<Rightarrow> Inr (if anyResult then Some result else None))"

text \<open>The guard of \<open>applyConsensus\<close>:
  \<open>this.overrides.active && this.overrides[param] !== null\<close>.\<close>

definition overrideActive :: "ConsensusEngine \<Rightarrow> string \<Rightarrow> bool" where
  "overrideActive e param \<longleftrightarrow>
     ovalTruthy (map_of (overrides e) ''active'') \<and> map_of (overrides e) param \<noteq> Some ONull"

definition applyEntry :: "string \<times> jsnum \<Rightarrow> ConsensusEngine \<Rightarrow> ConsensusEngine" where
  "applyEntry entry e =
     (case entry of (param, v) \<Rightarrow>
        if overrideActive e param then e
        else
          let current = stateValue (state e) param
          in e\<lparr>state :=
                 AList.update param
                   (num2 (+) current
                      (num2 (*) (num2 (-) v current) (Num (CONSENSUS_SMOOTHING (config e)))))
                   (state e)\<rparr>)"

text \<open>\<open>applyConsensus\<close> returns the snapshot \<open>{ ...this.state }\<close> and the engine.\<close>

definition applyConsensus ::
  "ConsensusEngine \<Rightarrow> (string \<times> jsnum) list option \<Rightarrow> (string \<times> jsnum) list \<times> ConsensusEngine"
where
  "applyConsensus e consensus =
     (case consensus of
        None \<Rightarrow> (state e, e)
      | Some c \<Rightarrow> (let e' = fold applyEntry c e in (state e', e')))"

text \<open>\<open>setOverride\<close>: the value is a number or \<open>null\<close> (\<open>None\<close>).\<close>

definition setOverride :: "ConsensusEngine \<Rightarrow> string \<Rightarrow> real option \<Rightarrow> ConsensusEngine" where
  "setOverride e param v =
     (if param \<notin> set (PARAMETERS (config e)) then e
      else
        let e1 = e\<lparr>overrides :=
                    AList.update param (case v of None \<Rightarrow> ONull | Some r \<Rightarrow> ONum r) (overrides e)\<rparr>
        in case v of
             None \<Rightarrow> e1
           | Some r \<Rightarrow>
               e1\<lparr>overrides := AList.update ''active'' (OBool True) (overrides e1),
                  state := AList.update param (Num r) (state e1)\<rparr>)"

definition clearOverrides :: "ConsensusEngine \<Rightarrow> ConsensusEngine" where
  "clearOverrides e =
     e\<lparr>overrides :=
         fold (\<lambda>p ov. AList.update p ONull ov) (PARAMETERS (config e))
           (AList.update ''active'' (OBool False) (overrides e))\<rparr>"

definition pruneOldInputs :: "real \<Rightarrow> ConsensusEngine \<Rightarrow> real option \<Rightarrow> nat \<times> ConsensusEngine" where
  "pruneOldInputs clock e now0 =
     (let now = orNow now0 clock;
          old = (\<lambda>(userId, input).
                   now - in_timestamp input > INPUT_DECAY_WINDOW_MS (config e) * 2)
      in (length (filter old (inputs e)), e\<lparr>inputs := filter (\<lambda>x. \<not> old x) (inputs e)\<rparr>))"

definition getState :: "ConsensusEngine \<Rightarrow> (string \<times> jsnum) list" where
  "getState e = state e"

definition getInputCount :: "ConsensusEngine \<Rightarrow> nat" where
  "getInputCount e = length (inputs e)"

definition reset :: "ConsensusEngine \<Rightarrow> ConsensusEngine" where
  "reset e =
     clearOverrides
       (e\<lparr>inputs := [],
          state := fold (\<lambda>p st. AList.update p (Num 0.5) st) (PARAMETERS (config e)) (state e)\<rparr>)"

text \<open>
  One tick of the driver's merge: \<open>applyConsensus(calculateConsensus(now))\<close>. When
  \<open>calculateConsensus\<close> throws, \<open>applyConsensus\<close> is not reached and the engine is as
  it was.
\<close>

definition mergeTick :: "real \<Rightarrow> ConsensusEngine \<Rightarrow> real option \<Rightarrow> error + ConsensusEngine" where
  "mergeTick clock e now0 =
     (case calculateConsensus clock e now0 of
        Inl err \<Rightarrow> Inl err
      | Inr consensus \<Rightarrow> Inr (snd (applyConsensus e consensus)))"

text \<open>A list of \<open>recordInput\<close> calls: the clock at each call and its three arguments.\<close>

fun recordInputs ::
  "ConsensusEngine \<Rightarrow> (real \<times> jsval \<times> jsval \<times> real option) list \<Rightarrow> ConsensusEngine"
where
  "recordInputs e [] = e"
| "recordInputs e ((clock, userId, vals, ts) # cs) =
     recordInputs (recordInput clock e userId vals ts) cs"

subsection \<open>The specification's weighted mean\<close>










text \<open>A mapping is an object; \<open>null\<close> is not one.\<close>

fun isMapping :: "jsval \<Rightarrow> bool" where
  "isMapping (JObj kvs) = True"
| "isMapping v = False"

text \<open>
  An engine as the data model has it: the decay window is not zero (the weights divide
  by it), every stored entry carries a mapping as its values, the state holds a number
  for every recognized parameter, and no recognized parameter is a name of
  \<open>Object.prototype\<close> (for such a name \<open>input.values[param]\<close> is never \<open>undefined\<close>).
\<close>

definition engineOk :: "ConsensusEngine \<Rightarrow> bool" where
  "engineOk e \<longleftrightarrow>
     INPUT_DECAY_WINDOW_MS (config e) \<noteq> 0
     \<and> list_all (\<lambda>i. isMapping (in_values i)) (map snd (inputs e))
     \<and> list_all (\<lambda>p. stateValue (state e) p \<noteq> NaN) (PARAMETERS (config e))
     \<and> list_all (\<lambda>p. p \<notin> set objectPrototypeNames) (PARAMETERS (config e))"

text \<open>The engine \<open>new ConsensusEngine()\<close> builds.\<close>

definition engine0 :: ConsensusEngine where
  "engine0 = newConsensusEngine DEFAULT_CONFIG"

text \<open>
  Three engines after one \<open>recordInput\<close> on a new engine: a fresh input
  \<open>{ mood: 0.8 }\<close> at time 1000; the same input recorded without a timestamp while the
  clock reads 1; and the payload \<open>null\<close>.
\<close>

definition engineFresh :: ConsensusEngine where
  "engineFresh = recordInput 1000 engine0 (JStr ''u1'') (JObj [(''mood'', 0.8)]) (Some 1000)"


definition engineNull :: ConsensusEngine where
  "engineNull = recordInput 1000 engine0 (JStr ''u1'') JNull (Some 1000)"

text \<open>
  The engine of the override test: \<open>setOverride('mood', 0.2)\<close> on a new engine, then
  a fresh input \<open>{ mood: 0.9 }\<close> at time 1000.
\<close>

definition engineOverride :: ConsensusEngine where
  "engineOverride =
     recordInputs (setOverride engine0 ''mood'' (Some 0.2))
       [(1000, JStr ''u1'', JObj [(''mood'', 0.9)], Some 1000)]"



chapter \<open>Properties\<close>

section \<open>Rounding\<close>

lemma roundEven_near: "\<bar>of_int (roundEven y) - y\<bar> \<le> 1 / 2"
  unfolding roundEven_def Let_def by (auto simp: abs_if) linarith+

lemma roundEven_of_int: "roundEven (of_int n) = n"
  by (simp add: roundEven_def)

lemma roundEven_mono_int: "of_int n \<le> y \<Longrightarrow> n \<le> roundEven y"
  unfolding roundEven_def Let_def by (auto simp: le_floor_iff) linarith+

lemma roundEven_le_int: "y \<le> of_int n \<Longrightarrow> roundEven y \<le> n"
  unfolding roundEven_def Let_def
  apply (auto)
  apply linarith+
  done

lemma floor_log2: 
  assumes "2 powr of_int e \<le> x" "x < 2 powr (of_int e + 1)"
  shows "\<lfloor>log 2 x\<rfloor> = e"
proof -
  have x: "0 < x" using assms(1) by (smt (verit) powr_gt_zero)
  have "of_int e \<le> log 2 x" using assms(1) x by (simp add: le_log_iff)
  moreover have "log 2 x < of_int e + 1" using assms(2) x by (simp add: log_less_iff)
  ultimately show ?thesis by linarith
qed

lemma fl_ulp: "x \<noteq> 0 \<Longrightarrow> fl x = of_int (roundEven (x / ulp x)) * ulp x"
  by (simp add: fl_def ulp_def Let_def)

lemma ulp_pos: "0 < ulp x"
  by (simp add: ulp_def)

lemma ulp_bounds:
  assumes "x \<noteq> 0"
  shows "2 ^ 52 * ulp x \<le> \<bar>x\<bar>" and "\<bar>x\<bar> < 2 ^ 53 * ulp x"
proof -
  let ?e = "\<lfloor>log 2 \<bar>x\<bar>\<rfloor>"
  have x: "0 < \<bar>x\<bar>" using assms by simp
  have c: "2 powr log 2 \<bar>x\<bar> = \<bar>x\<bar>" using x by simp
  have "2 powr of_int ?e \<le> 2 powr log 2 \<bar>x\<bar>"
    by (rule powr_mono) simp_all
  then have a: "2 powr of_int ?e \<le> \<bar>x\<bar>" by (simp only: c)
  have "2 powr log 2 \<bar>x\<bar> < 2 powr (of_int ?e + 1)"
    by (rule powr_less_mono) simp_all
  then have b: "\<bar>x\<bar> < 2 powr (of_int ?e + 1)" by (simp only: c)
  have u: "ulp x = 2 powr of_int ?e / 2 ^ 52"
    by (simp add: ulp_def powr_diff)
  have v: "(2::real) powr (of_int ?e + 1) = 2 * 2 powr of_int ?e"
    by (simp add: powr_add)
  show "2 ^ 52 * ulp x \<le> \<bar>x\<bar>" using a by (simp add: u)
  show "\<bar>x\<bar> < 2 ^ 53 * ulp x" using b by (simp add: u v)
qed

lemma ulp_eq:
  assumes "0 < u" "2 ^ 52 * u \<le> \<bar>x\<bar>" "\<bar>x\<bar> < 2 ^ 53 * u" "u = 2 powr of_int k"
  shows "ulp x = u"
proof -
  have "(2::real) powr of_int (k + 52) = 2 powr of_int k * 2 ^ 52"
    by (simp add: powr_add)
  then have a: "2 powr of_int (k + 52) \<le> \<bar>x\<bar>" using assms by (simp add: mult.commute)
  have "(2::real) powr (of_int (k + 52) + 1) = 2 powr of_int k * 2 ^ 53"
    by (simp add: powr_add)
  then have b: "\<bar>x\<bar> < 2 powr (of_int (k + 52) + 1)" using assms by (simp add: mult.commute)
  from a b have "\<lfloor>log 2 \<bar>x\<bar>\<rfloor> = k + 52" by (rule floor_log2)
  then show ?thesis by (simp add: ulp_def assms(4))
qed

lemma fl_eval_small:
  assumes "2 ^ 52 \<le> \<bar>x\<bar> * 2 ^ k" "\<bar>x\<bar> * 2 ^ k < 2 ^ 53"
  shows "fl x = of_int (roundEven (x * 2 ^ k)) / 2 ^ k"
proof -
  have u: "(1 / 2 ^ k :: real) = 2 powr of_int (- int k)"
    by (simp add: powr_minus powr_realpow divide_inverse)
  have "ulp x = 1 / 2 ^ k"
  proof (rule ulp_eq [OF _ _ _ u])
    show "0 < (1 / 2 ^ k :: real)" by simp
    show "2 ^ 52 * (1 / 2 ^ k) \<le> \<bar>x\<bar>" using assms(1) by (simp add: field_simps)
    show "\<bar>x\<bar> < 2 ^ 53 * (1 / 2 ^ k)" using assms(2) by (simp add: field_simps)
  qed
  moreover have "x \<noteq> 0" using assms(1) by auto
  ultimately show ?thesis by (simp add: fl_ulp)
qed

lemma fl_eval_large:
  assumes "2 ^ 52 \<le> \<bar>x\<bar> / 2 ^ k" "\<bar>x\<bar> / 2 ^ k < 2 ^ 53"
  shows "fl x = of_int (roundEven (x / 2 ^ k)) * 2 ^ k"
proof -
  have u: "(2 ^ k :: real) = 2 powr of_int (int k)"
    by (simp add: powr_realpow)
  have "ulp x = 2 ^ k"
  proof (rule ulp_eq [OF _ _ _ u])
    show "0 < (2 ^ k :: real)" by simp
    show "2 ^ 52 * 2 ^ k \<le> \<bar>x\<bar>" using assms(1) by (simp add: field_simps)
    show "\<bar>x\<bar> < 2 ^ 53 * 2 ^ k" using assms(2) by (simp add: field_simps)
  qed
  moreover have "x \<noteq> 0" using assms(1) by auto
  ultimately show ?thesis by (simp add: fl_ulp)
qed

lemma fl_zero: "fl 0 = 0"
  by (simp add: fl_def)

lemma fl_pos: 
  assumes "0 < x" shows "0 < fl x"
proof -
  have nz: "x \<noteq> 0" using assms by simp
  from ulp_bounds(1) [OF nz] assms have "2 ^ 52 \<le> x / ulp x"
    using ulp_pos [of x] by (simp add: field_simps)
  then have "of_int (2 ^ 52) \<le> x / ulp x" by simp
  then have "2 ^ 52 \<le> roundEven (x / ulp x)" by (rule roundEven_mono_int)
  then have "0 < roundEven (x / ulp x)" by simp
  then show ?thesis using ulp_pos [of x] by (simp add: fl_ulp [OF nz])
qed

lemma fl_neg:
  assumes "x < 0" shows "fl x < 0"
proof -
  have nz: "x \<noteq> 0" using assms by simp
  from ulp_bounds(1) [OF nz] assms have "x / ulp x \<le> - (2 ^ 52)"
    using ulp_pos [of x] by (simp add: field_simps)
  then have "x / ulp x \<le> of_int (- (2 ^ 52))" by simp
  then have "roundEven (x / ulp x) \<le> - (2 ^ 52)" by (rule roundEven_le_int)
  then have "roundEven (x / ulp x) < 0" by simp
  then show ?thesis using ulp_pos [of x] by (simp add: fl_ulp [OF nz] mult_less_0_iff)
qed

lemma fl_pos_iff: "0 < fl x \<longleftrightarrow> 0 < x"
proof
  assume p: "0 < fl x"
  show "0 < x"
  proof (rule ccontr)
    assume "\<not> 0 < x"
    then have "x = 0 \<or> x < 0" by linarith
    then have "fl x \<le> 0" using fl_neg [of x] fl_zero by auto
    with p show False by simp
  qed
qed (rule fl_pos)

lemma fl_nonneg: "0 \<le> x \<Longrightarrow> 0 \<le> fl x"
  using fl_pos [of x] fl_zero by (cases "x = 0") (auto simp: less_eq_real_def)

lemma fl_error: "\<bar>fl x - x\<bar> \<le> \<bar>x\<bar> / 2 ^ 53"
proof (cases "x = 0")
  case True
  then show ?thesis by (simp add: fl_zero)
next
  case False
  have "fl x - x = (of_int (roundEven (x / ulp x)) - x / ulp x) * ulp x"
    using ulp_pos [of x] by (simp add: fl_ulp [OF False] left_diff_distrib)
  then have "\<bar>fl x - x\<bar> = \<bar>of_int (roundEven (x / ulp x)) - x / ulp x\<bar> * ulp x"
    using ulp_pos [of x] by (simp add: abs_mult)
  also have "\<dots> \<le> 1 / 2 * ulp x"
    using roundEven_near [of "x / ulp x"] ulp_pos [of x] by (intro mult_right_mono) simp_all
  also have "\<dots> \<le> \<bar>x\<bar> / 2 ^ 53"
    using ulp_bounds(1) [OF False] by simp
  finally show ?thesis .
qed

lemma fl_small:
  assumes "2 ^ 52 \<le> \<bar>x\<bar> * 2 ^ k" "\<bar>x\<bar> * 2 ^ k < 2 ^ 53"
    and "y = of_int (roundEven (x * 2 ^ k)) / 2 ^ k"
  shows "fl x = y"
  using fl_eval_small [OF assms(1,2)] assms(3) by simp

lemma fl_large:
  assumes "2 ^ 52 \<le> \<bar>x\<bar> / 2 ^ k" "\<bar>x\<bar> / 2 ^ k < 2 ^ 53"
    and "y = of_int (roundEven (x / 2 ^ k)) * 2 ^ k"
  shows "fl x = y"
  using fl_eval_large [OF assms(1,2)] assms(3) by simp

text \<open>Integers below \<open>2\<^sup>5\<^sup>3\<close> and the half are doubles.\<close>

lemma fl_of_int:
  assumes "\<bar>n\<bar> < 2 ^ 53"
  shows "fl (of_int n) = of_int n"
proof (cases "n = 0")
  case True
  then show ?thesis by (simp add: fl_zero)
next
  case False
  let ?x = "of_int n :: real"
  have nz: "?x \<noteq> 0" using False by simp
  have "\<bar>?x\<bar> = of_int \<bar>n\<bar>" by simp
  also have "\<dots> < of_int (2 ^ 53)" using assms by (simp only: of_int_less_iff)
  finally have lt: "\<bar>?x\<bar> < 2 powr 53" by simp
  define e where "e = \<lfloor>log 2 \<bar>?x\<bar>\<rfloor>"
  have "log 2 \<bar>?x\<bar> < 53" using lt nz by (simp add: log_less_iff)
  then have "e < 53" unfolding e_def by (simp add: floor_less_iff)
  then have e: "e \<le> 52" by simp
  define j where "j = nat (52 - e)"
  have "of_int e - 52 = - real j" using e by (simp add: j_def)
  then have "ulp ?x = 2 powr (- real j)" by (simp add: ulp_def e_def)
  also have "\<dots> = 1 / 2 ^ j" by (simp add: powr_minus powr_realpow divide_inverse)
  finally have u: "ulp ?x = 1 / 2 ^ j" .
  have "?x / ulp ?x = of_int (n * 2 ^ j)" by (simp add: u)
  then have "roundEven (?x / ulp ?x) = n * 2 ^ j" by (simp only: roundEven_of_int)
  then show ?thesis by (simp add: fl_ulp [OF nz] u)
qed

lemma fl_numeral: "(numeral w :: int) < 2 ^ 53 \<Longrightarrow> fl (numeral w) = numeral w"
  using fl_of_int [of "numeral w"] by simp

lemma fl_neg_numeral: "(numeral w :: int) < 2 ^ 53 \<Longrightarrow> fl (- numeral w) = - numeral w"
  using fl_of_int [of "- numeral w"] by simp

lemma fl_one: "fl 1 = 1"
  using fl_of_int [of 1] by simp

lemma fl_half: "fl (1 / 2) = 1 / 2"
  by (rule fl_small [where k = 53]) (simp_all add: roundEven_def)

lemma fl_upper: "0 \<le> x \<Longrightarrow> fl x \<le> x * (1 + 1 / 2 ^ 53)"
  using fl_error [of x] by (simp add: abs_if algebra_simps split: if_splits)


section \<open>Generator\<close>

lemma toInt32_of_int: "toInt32 (of_int s) = word_of_int s"
  by (simp add: toInt32_def)

lemma toInt32_shift: "toInt32 (of_int s + 4294967296) = toInt32 (of_int s)"
proof -
  have "of_int s + (4294967296::real) = of_int (s + 4294967296)" by simp
  then have "toInt32 (of_int s + 4294967296) = word_of_int (s + 4294967296)"
    by (simp only: toInt32_of_int)
  also have "\<dots> = (word_of_int s :: 32 word)"
    by (simp add: word_of_int_eq_iff take_bit_eq_mod)
  finally show ?thesis by (simp add: toInt32_of_int)
qed

text \<open>
  Claim C10. \<open>seededRandom\<close> uses only the low 32 bits of its seed: for every integer
  seed \<open>s\<close>, the generators \<open>seededRandom(s)\<close> and \<open>seededRandom(s + 2^32)\<close> return the
  same value at every call, so the lists of their first \<open>n\<close> results are equal for
  every \<open>n\<close>.
\<close>

theorem seededRandom_low_32_bits:
  "randCalls (seededRandom (of_int s + 4294967296)) n = randCalls (seededRandom (of_int s)) n"
  by (simp add: seededRandom_def toInt32_shift)

theorem seededRandom_low_32_bits_witness:
  "randCalls (seededRandom (of_int 42 + 4294967296)) 1 = randCalls (seededRandom (of_int 42)) 1
   \<and> randCalls (seededRandom (of_int 42)) 1 = [2581720956 / 4294967296]"
proof -
  have "randCalls (seededRandom (of_int 42)) 1 = [2581720956 / 4294967296]"
    by (simp add: seededRandom_def toInt32_def rand_def imul_def)
  with seededRandom_low_32_bits [of 42 1] show ?thesis by simp
qed

lemma length_concat_const:
  "(\<And>x. x \<in> set xs \<Longrightarrow> length (f x) = k) \<Longrightarrow> length (concat (map f xs)) = k * length xs"
  by (induction xs) auto

lemma length_expand: "length (expand xs) = 3 * length xs"
  unfolding expand_def
  using length_concat_const [of "[0..<length xs]" "motif xs" 3]
  by (simp add: motif_def Let_def)

lemma length_passes: "length (passes d xs) = length xs * 3 ^ d"
  by (induction d arbitrary: xs) (simp_all add: length_expand)

lemma clampMidi_range: "midiRange (clampMidi x)"
  by (simp add: clampMidi_def midiRange_def)

lemma expand_range:
  assumes "list_all midiRange xs"
  shows "list_all midiRange (expand xs)"
  using assms by (auto simp: expand_def motif_def Let_def clampMidi_range list_all_iff)

lemma passes_range: "list_all midiRange xs \<Longrightarrow> list_all midiRange (passes d xs)"
proof (induction d arbitrary: xs)
  case 0
  then show ?case by simp
next
  case (Suc d)
  from Suc.prems have "list_all midiRange (expand xs)" by (rule expand_range)
  then show ?case by (simp add: Suc.IH)
qed

text \<open>
  Claim C5, as amended. For every sequence and every depth \<open>d \<ge> 0\<close>,
  \<open>applyRecursion\<close> returns a sequence of length \<open>|seq| * 3^d\<close>, and at depth 0 the
  sequence itself. The notes of the result lie in \<open>[0,127]\<close> when the notes of the
  input do: the first and the last note of each motif are the input's note, unclamped.
\<close>

theorem applyRecursion_growth:
  assumes "0 \<le> depth"
  shows "\<exists>out. applyRecursion sequence depth = Inr out
           \<and> length out = length sequence * 3 ^ nat depth
           \<and> (depth = 0 \<longrightarrow> out = sequence)
           \<and> (list_all midiRange sequence \<longrightarrow> list_all midiRange out)"
  using assms by (auto simp: applyRecursion_def length_passes passes_range)

theorem applyRecursion_growth_witness:
  "(0::int) \<le> 1
   \<and> list_all midiRange [60, 64, 67]
   \<and> applyRecursion [60, 64, 67] 1 = Inr [60, 62, 60, 64, 65, 64, 67, 63, 67]
   \<and> (\<exists>out. applyRecursion [60, 64, 67] 1 = Inr out
           \<and> length out = length [60, 64, 67 :: real] * 3 ^ nat 1
           \<and> list_all midiRange out)
   \<and> applyRecursion [60, 64, 67] 0 = Inr [60, 64, 67]"
proof -
  have d: "(0::int) \<le> 1" and z: "(0::int) \<le> 0" by simp_all
  have r: "list_all midiRange [60, 64, 67]" by (simp add: midiRange_def)
  have e: "applyRecursion [60, 64, 67] 1 = Inr [60, 62, 60, 64, 65, 64, 67, 63, 67]"
    by (simp add: applyRecursion_def expand_def motif_def clampMidi_def round_def upt_rec)
  from applyRecursion_growth [OF z, of "[60, 64, 67]"]
  have c: "applyRecursion [60, 64, 67] 0 = Inr [60, 64, 67]" by auto
  from applyRecursion_growth [OF d, of "[60, 64, 67]"] d r e c show ?thesis by auto
qed

text \<open>
  The claim as it was stated fails on a sequence that holds a note outside the MIDI
  range: \<open>applyRecursion([200], 1)\<close> is \<open>[200, 127, 200]\<close>.
\<close>

theorem applyRecursion_keeps_input_notes:
  "applyRecursion [200] 1 = Inr [200, 127, 200] \<and> \<not> midiRange 200"
  by (simp add: applyRecursion_def expand_def motif_def clampMidi_def round_def midiRange_def)

section \<open>Scheduler\<close>

lemma mapThrowing_Inr:
  "mapThrowing f xs = Inr ys \<Longrightarrow> list_all2 (\<lambda>x y. f x = Inr y) xs ys"
  by (induction xs arbitrary: ys) (auto split: sum.splits)

lemma list_all2_transfer:
  assumes "list_all2 R xs ys" "list_all P xs" "\<And>x y. R x y \<Longrightarrow> P x \<Longrightarrow> Q y"
  shows "list_all Q ys"
  using assms by (induction rule: list_all2_induct) auto

lemma numGreaterE:
  assumes "numGreater x 0"
  obtains r where "x = Num r" "0 < r"
  using assms by (cases x) simp_all

lemma numAtLeastE:
  assumes "numAtLeast x 0"
  obtains r where "x = Num r" "0 \<le> r"
  using assms by (cases x) simp_all

lemma isNumE:
  assumes "isNum x"
  obtains r where "x = Num r"
  using assms by (cases x) simp_all

lemma subdivision_positive: "map_of SUBDIVISIONS sub = Some m \<Longrightarrow> 0 < m"
  by (auto simp: SUBDIVISIONS_def fl_pos split: if_splits)

lemma getSubdivisionDuration_positive:
  assumes "numGreater (beatDurationMs s) 0" "sub \<notin> set objectPrototypeNames"
    "getSubdivisionDuration s sub = Inr g"
  shows "numGreater g 0"
proof -
  from assms(1) obtain b where b: "beatDurationMs s = Num b" "0 < b"
    by (rule numGreaterE)
  from assms(2,3) obtain m where m: "map_of SUBDIVISIONS sub = Some m" and g: "g = Num (fl (b * m))"
    by (auto simp: getSubdivisionDuration_def b split: option.splits if_splits)
  from m have "0 < m" by (rule subdivision_positive)
  with b have "0 < fl (b * m)" by (intro fl_pos mult_pos_pos)
  with g show ?thesis by simp
qed

lemma setBPM_beat:
  assumes "isNum b" "setBPM s b = Inr s'"
  shows "numGreater (beatDurationMs s') 0"
proof -
  from assms(1) obtain x where x: "b = Num x" by (rule isNumE)
  from assms(2) have r: "20 \<le> x" "x \<le> 300"
    and s': "beatDurationMs s' = Num (fl (fl (60 / x) * 1000))"
    by (auto simp: setBPM_def x split: if_splits)
  from r have "0 < 60 / x" by simp
  then have "0 < fl (60 / x)" by (rule fl_pos)
  then have "0 < fl (60 / x) * 1000" by simp
  then have "0 < fl (fl (60 / x) * 1000)" by (rule fl_pos)
  with s' show ?thesis by simp
qed

lemma setBPM_notes: "setBPM s b = Inr s' \<Longrightarrow> scheduledNotes s' = scheduledNotes s"
  by (auto simp: setBPM_def split: if_splits)

lemma newScheduler_beat:
  "b \<noteq> Some NaN \<Longrightarrow> newScheduler b = Inr s \<Longrightarrow> numGreater (beatDurationMs s) 0"
proof (cases b)
  case None
  assume "newScheduler b = Inr s"
  with None show ?thesis by (auto simp: newScheduler_def)
next
  case (Some x)
  assume "b \<noteq> Some NaN" "newScheduler b = Inr s"
  with Some have "isNum x" and "setBPM scheduler120 x = Inr s"
    by (cases x; simp add: newScheduler_def scheduler120_def)+
  then show ?thesis by (rule setBPM_beat)
qed

lemma newScheduler_notes: "newScheduler b = Inr s \<Longrightarrow> scheduledNotes s = []"
  by (auto simp: newScheduler_def Let_def setBPM_def split: option.splits if_splits)

text \<open>On times that are numbers the sort is the stable sort by time.\<close>

lemma comparator_finite:
  assumes "isNum (ev_time a)" "isNum (ev_time b)"
  shows "numGreater (comparator a b) 0 \<longleftrightarrow> \<not> timeOf a \<le> timeOf b"
proof -
  from assms(1) obtain x where x: "ev_time a = Num x" by (rule isNumE)
  from assms(2) obtain y where y: "ev_time b = Num y" by (rule isNumE)
  from x y show ?thesis
    by (simp add: comparator_def timeOf_def fl_pos_iff not_le)
qed

lemma insertByTime_finite:
  assumes "isNum (ev_time e)" "list_all (\<lambda>x. isNum (ev_time x)) xs"
  shows "insertByTime e xs = insort_key timeOf e xs"
  using assms by (induction xs) (simp_all add: comparator_finite)

lemma sortByTime_finite:
  assumes "list_all (\<lambda>x. isNum (ev_time x)) xs"
  shows "sortByTime xs = sort_key timeOf xs"
  using assms
proof (induction xs)
  case Nil
  then show ?case by (simp add: sortByTime_def)
next
  case (Cons x xs)
  then have ih: "sortByTime xs = sort_key timeOf xs" by simp
  have u: "sortByTime (x # xs) = insertByTime x (sortByTime xs)"
    by (simp add: sortByTime_def)
  have a: "list_all (\<lambda>x. isNum (ev_time x)) (sort_key timeOf xs)"
    using Cons.prems by (simp add: list_all_iff)
  from Cons.prems have b: "isNum (ev_time x)" by simp
  show ?case
    unfolding u ih insertByTime_finite [OF b a] by simp
qed

lemma nonDecreasing_finite:
  "list_all (\<lambda>x. isNum (ev_time x)) xs \<Longrightarrow>
   nonDecreasing (map ev_time xs) \<longleftrightarrow> sorted (map timeOf xs)"
proof (induction xs rule: induct_list012)
  case 1
  then show ?case by simp
next
  case (2 x)
  then show ?case by simp
next
  case (3 x y zs)
  from "3.prems" have "isNum (ev_time x)" "isNum (ev_time y)" by simp_all
  then obtain a b where ab: "ev_time x = Num a" "ev_time y = Num b"
    by (auto elim!: isNumE)
  have s: "sorted (map timeOf (x # y # zs)) \<longleftrightarrow> timeOf x \<le> timeOf y \<and> sorted (map timeOf (y # zs))"
    by auto
  from "3.prems" "3.IH"(2) have "nonDecreasing (map ev_time (y # zs)) \<longleftrightarrow> sorted (map timeOf (y # zs))"
    by simp
  then show ?case
    unfolding s by (simp add: ab timeOf_def)
qed

lemma numAtLeast_isNum: "numAtLeast x 0 \<Longrightarrow> isNum x"
  by (cases x) simp_all

lemma noteTimeOk_finite: "list_all noteTimeOk xs \<Longrightarrow> list_all (\<lambda>x. isNum (ev_time x)) xs"
  by (induction xs) (simp_all add: noteTimeOk_def numAtLeast_isNum)

lemma sortByTime_ok:
  assumes "list_all noteTimeOk xs"
  shows "nonDecreasing (map ev_time (sortByTime xs))" and "set (sortByTime xs) = set xs"
proof -
  have f: "list_all (\<lambda>x. isNum (ev_time x)) xs" using assms by (rule noteTimeOk_finite)
  then have e: "sortByTime xs = sort_key timeOf xs" by (rule sortByTime_finite)
  show "set (sortByTime xs) = set xs" by (simp add: e)
  have "list_all (\<lambda>x. isNum (ev_time x)) (sort_key timeOf xs)"
    using f by (simp add: list_all_iff)
  then show "nonDecreasing (map ev_time (sortByTime xs))"
    by (simp add: e nonDecreasing_finite)
qed

lemma round_nonneg: "0 \<le> (x::real) \<Longrightarrow> 0 \<le> round x"
  by (simp add: round_def)

lemma roundToGrid_nonneg:
  assumes "numGreater g 0" "numAtLeast t 0"
  shows "numAtLeast (roundToGrid t g) 0"
proof -
  from assms(1) obtain g' where g: "g = Num g'" "0 < g'" by (rule numGreaterE)
  from assms(2) obtain t' where t: "t = Num t'" "0 \<le> t'" by (rule numAtLeastE)
  have "0 \<le> fl (t' / g')" using g t by (intro fl_nonneg) simp
  then have "0 \<le> round (fl (t' / g'))" by (rule round_nonneg)
  then have "0 \<le> fl (of_int (round (fl (t' / g'))) * g')"
    using g by (intro fl_nonneg mult_nonneg_nonneg) simp_all
  then show ?thesis using g t by simp
qed

lemma quantize_nonneg:
  assumes "numGreater (beatDurationMs s) 0" "orQuarter sub \<notin> set objectPrototypeNames"
    "numAtLeast t 0" "quantize s t sub = Inr q"
  shows "numAtLeast q 0"
proof -
  from assms(4) obtain g where g: "getSubdivisionDuration s (orQuarter sub) = Inr g"
    and q: "q = roundToGrid t g"
    by (auto simp: quantize_def Let_def split: sum.splits)
  from assms(1,2) g have "numGreater g 0" by (rule getSubdivisionDuration_positive)
  with assms(3) show ?thesis unfolding q by (intro roundToGrid_nonneg)
qed

lemma scheduleNote_inv:
  assumes "schedulerInv s" "isNum n" "isNum t" "scheduleNote s n t d v = Inr (ev, s')"
  shows "schedulerInv s'"
proof -
  from assms(2) obtain n' where n: "n = Num n'" by (rule isNumE)
  from assms(3) obtain t' where t: "t = Num t'" by (rule isNumE)
  note nt = n t
  from assms(4) have r: "0 \<le> n'" "n' \<le> 127" "0 \<le> t'"
    by (auto simp: scheduleNote_def nt split: if_splits)
  let ?ev = "\<lparr>ev_note = n, ev_time = t,
      ev_duration = (case d of Some d \<Rightarrow> d | None \<Rightarrow> beatDurationMs s),
      ev_velocity = (case v of Some v \<Rightarrow> v | None \<Rightarrow> Num 100)\<rparr>"
  from assms(4) have s': "s' = s\<lparr>scheduledNotes := sortByTime (scheduledNotes s @ [?ev])\<rparr>"
    by (auto simp: scheduleNote_def Let_def split: if_splits)
  have "noteTimeOk ?ev" using r by (simp add: noteTimeOk_def nt midiRange_def)
  with assms(1) have all: "list_all noteTimeOk (scheduledNotes s @ [?ev])"
    by (simp add: schedulerInv_def)
  from sortByTime_ok [OF all] assms(1) all show ?thesis
    by (simp add: s' schedulerInv_def list_all_iff)
qed

lemma quantizeAll_inv:
  assumes "schedulerInv s" "orQuarter sub \<notin> set objectPrototypeNames"
    "quantizeAll s sub = Inr (evs, s')"
  shows "schedulerInv s'"
proof -
  let ?f = "\<lambda>event. case quantize s (ev_time event) sub of
                      Inl e \<Rightarrow> Inl e | Inr t \<Rightarrow> Inr (event\<lparr>ev_time := t\<rparr>)"
  from assms(3) obtain qs where qs: "mapThrowing ?f (scheduledNotes s) = Inr qs"
    and s': "s' = s\<lparr>scheduledNotes := sortByTime qs\<rparr>"
    by (auto simp: quantizeAll_def Let_def split: sum.splits)
  from assms(1) have b: "numGreater (beatDurationMs s) 0"
    and ok: "list_all noteTimeOk (scheduledNotes s)"
    by (simp_all add: schedulerInv_def)
  have step: "noteTimeOk y" if "?f x = Inr y" "noteTimeOk x" for x y
  proof -
    from that(1) obtain t where t: "quantize s (ev_time x) sub = Inr t"
      and y: "y = x\<lparr>ev_time := t\<rparr>"
      by (auto split: sum.splits)
    from that(2) have "numAtLeast (ev_time x) 0" by (simp add: noteTimeOk_def)
    with b assms(2) t have "numAtLeast t 0" by (auto intro: quantize_nonneg)
    with that(2) y show ?thesis by (simp add: noteTimeOk_def)
  qed
  have all: "list_all noteTimeOk qs"
    by (rule list_all2_transfer [OF mapThrowing_Inr [OF qs] ok]) (rule step)
  from sortByTime_ok [OF all] b all show ?thesis
    by (simp add: s' schedulerInv_def list_all_iff)
qed

lemma scheduleAtBeat_unfold:
  "scheduleAtBeat s n (Num k) sub v = Inr r \<Longrightarrow> beatDurationMs s = Num b \<Longrightarrow>
   \<exists>g. getSubdivisionDuration s (orQuarter sub) = Inr g
       \<and> scheduleNote s n (Num (fl (fl (k - 1) * b))) (Some g) v = Inr r"
  by (cases "getSubdivisionDuration s (orQuarter sub)") (simp_all add: scheduleAtBeat_def)

lemma scheduleAtBeat_inv:
  assumes "schedulerInv s" "isNum n" "isNum beat" "scheduleAtBeat s n beat sub v = Inr (ev, s')"
  shows "schedulerInv s'"
proof -
  from assms(1) have "numGreater (beatDurationMs s) 0" by (simp add: schedulerInv_def)
  then obtain b where b: "beatDurationMs s = Num b" "0 < b" by (rule numGreaterE)
  from assms(3) obtain k where k: "beat = Num k" by (rule isNumE)
  from scheduleAtBeat_unfold [OF assms(4) [unfolded k] b(1)] obtain g where
    sn: "scheduleNote s n (Num (fl (fl (k - 1) * b))) (Some g) v = Inr (ev, s')"
    by blast
  have "isNum (Num (fl (fl (k - 1) * b)))" by simp
  from scheduleNote_inv [OF assms(1,2) this sn] show ?thesis .
qed

lemma schedulerStep_inv:
  assumes "schedulerInv s" "finiteCall c" "schedulerStep s c = Inr s'"
  shows "schedulerInv s'"
proof (cases c)
  case (SetBPM b)
  with assms show ?thesis
    by (auto simp: schedulerInv_def setBPM_beat setBPM_notes)
next
  case (ScheduleNote n t d v)
  with assms show ?thesis
    by (auto split: sum.splits intro: scheduleNote_inv)
next
  case (ScheduleAtBeat n beat sub v)
  with assms show ?thesis
    by (auto split: sum.splits intro: scheduleAtBeat_inv)
next
  case (QuantizeAll sub)
  with assms show ?thesis
    by (auto split: sum.splits intro: quantizeAll_inv)
next
  case Clear
  with assms show ?thesis
    by (auto simp: schedulerInv_def clear_def)
qed

lemma schedulerRun_inv:
  "schedulerInv s \<Longrightarrow> list_all finiteCall cs \<Longrightarrow> schedulerInv (schedulerRun s cs)"
proof (induction cs arbitrary: s)
  case Nil
  then show ?case by simp
next
  case (Cons c cs)
  then show ?case
    by (cases "schedulerStep s c") (auto intro: schedulerStep_inv)
qed

lemma newScheduler_inv: "b \<noteq> Some NaN \<Longrightarrow> newScheduler b = Inr s \<Longrightarrow> schedulerInv s"
  by (simp add: schedulerInv_def newScheduler_beat newScheduler_notes)

lemma newScheduler_default: "newScheduler None = Inr scheduler120"
  by (simp add: newScheduler_def scheduler120_def)

lemma insertByTime_set: "set (insertByTime e xs) = insert e (set xs)"
  by (induction xs) auto

lemma sortByTime_set: "set (sortByTime evs) = set evs"
  by (induction evs) (simp_all add: sortByTime_def insertByTime_set)

lemma scheduleNote_durVel:
  assumes "numGreater (beatDurationMs s) 0" "list_all durationVelocityOk (scheduledNotes s)"
    "suppliedArgsOk (ScheduleNote n t d v)" "scheduleNote s n t d v = Inr (ev, s')"
  shows "list_all durationVelocityOk (scheduledNotes s')"
proof -
  let ?ev = "\<lparr>ev_note = n, ev_time = t,
      ev_duration = (case d of Some d \<Rightarrow> d | None \<Rightarrow> beatDurationMs s),
      ev_velocity = (case v of Some v \<Rightarrow> v | None \<Rightarrow> Num 100)\<rparr>"
  from assms(4) have s': "s' = s\<lparr>scheduledNotes := sortByTime (scheduledNotes s @ [?ev])\<rparr>"
    by (auto simp: scheduleNote_def Let_def split: if_splits)
  have "durationVelocityOk ?ev"
    using assms(1,3) by (simp add: durationVelocityOk_def midiRange_def split: option.splits)
  with assms(2) show ?thesis
    by (simp add: s' list_all_iff sortByTime_set)
qed

lemma quantizeAll_durVel:
  assumes "list_all durationVelocityOk (scheduledNotes s)" "quantizeAll s sub = Inr (evs, s')"
  shows "list_all durationVelocityOk (scheduledNotes s')"
proof -
  let ?f = "\<lambda>event. case quantize s (ev_time event) sub of
                      Inl e \<Rightarrow> Inl e | Inr t \<Rightarrow> Inr (event\<lparr>ev_time := t\<rparr>)"
  from assms(2) obtain qs where qs: "mapThrowing ?f (scheduledNotes s) = Inr qs"
    and s': "s' = s\<lparr>scheduledNotes := sortByTime qs\<rparr>"
    by (auto simp: quantizeAll_def Let_def split: sum.splits)
  have step: "durationVelocityOk y" if "?f x = Inr y" "durationVelocityOk x" for x y
    using that by (auto simp: durationVelocityOk_def split: sum.splits)
  have "list_all durationVelocityOk qs"
    by (rule list_all2_transfer [OF mapThrowing_Inr [OF qs] assms(1)]) (rule step)
  then show ?thesis
    by (simp add: s' list_all_iff sortByTime_set)
qed

lemma scheduleAtBeat_durVel:
  assumes "schedulerInv s" "list_all durationVelocityOk (scheduledNotes s)"
    "isNum beat" "orQuarter sub \<notin> set objectPrototypeNames"
    "suppliedArgsOk (ScheduleAtBeat n beat sub v)"
    "scheduleAtBeat s n beat sub v = Inr (ev, s')"
  shows "list_all durationVelocityOk (scheduledNotes s')"
proof -
  from assms(1) have pos: "numGreater (beatDurationMs s) 0" by (simp add: schedulerInv_def)
  then obtain b where b: "beatDurationMs s = Num b" "0 < b" by (rule numGreaterE)
  from assms(3) obtain k where k: "beat = Num k" by (rule isNumE)
  from scheduleAtBeat_unfold [OF assms(6) [unfolded k] b(1)] obtain g where
    g: "getSubdivisionDuration s (orQuarter sub) = Inr g"
    and sn: "scheduleNote s n (Num (fl (fl (k - 1) * b))) (Some g) v = Inr (ev, s')"
    by blast
  from pos assms(4) g have "numGreater g 0" by (rule getSubdivisionDuration_positive)
  with assms(5) have "suppliedArgsOk (ScheduleNote n (Num (fl (fl (k - 1) * b))) (Some g) v)"
    by simp
  from scheduleNote_durVel [OF pos assms(2) this sn] show ?thesis .
qed

lemma schedulerStep_durVel:
  assumes "schedulerInv s" "list_all durationVelocityOk (scheduledNotes s)"
    "finiteCall c" "suppliedArgsOk c" "schedulerStep s c = Inr s'"
  shows "list_all durationVelocityOk (scheduledNotes s')"
proof (cases c)
  case (SetBPM b)
  with assms show ?thesis by (auto simp: setBPM_notes)
next
  case (ScheduleNote n t d v)
  with assms(5) obtain ev where sn: "scheduleNote s n t d v = Inr (ev, s')"
    by (auto split: sum.splits)
  from assms(1) have pos: "numGreater (beatDurationMs s) 0" by (simp add: schedulerInv_def)
  from scheduleNote_durVel [OF pos assms(2) assms(4) [unfolded ScheduleNote] sn] show ?thesis .
next
  case (ScheduleAtBeat n beat sub v)
  with assms(5) obtain ev where sb: "scheduleAtBeat s n beat sub v = Inr (ev, s')"
    by (auto split: sum.splits)
  from assms(3) ScheduleAtBeat have f: "isNum beat" "orQuarter sub \<notin> set objectPrototypeNames"
    by simp_all
  from scheduleAtBeat_durVel [OF assms(1,2) f assms(4) [unfolded ScheduleAtBeat] sb]
  show ?thesis .
next
  case (QuantizeAll sub)
  with assms(5) obtain evs where "quantizeAll s sub = Inr (evs, s')"
    by (auto split: sum.splits)
  with assms(2) show ?thesis by (rule quantizeAll_durVel)
next
  case Clear
  with assms show ?thesis by (auto simp: clear_def)
qed

lemma schedulerRun_durVel:
  "schedulerInv s \<Longrightarrow> list_all durationVelocityOk (scheduledNotes s) \<Longrightarrow>
   list_all finiteCall cs \<Longrightarrow> list_all suppliedArgsOk cs
    \<Longrightarrow> list_all durationVelocityOk (scheduledNotes (schedulerRun s cs))"
proof (induction cs arbitrary: s)
  case Nil
  then show ?case by simp
next
  case (Cons c cs)
  show ?case
  proof (cases "schedulerStep s c")
    case (Inl e)
    with Cons show ?thesis by simp
  next
    case (Inr s')
    with Cons.prems have "schedulerInv s'" "list_all durationVelocityOk (scheduledNotes s')"
      by (auto intro: schedulerStep_inv schedulerStep_durVel)
    with Cons Inr show ?thesis by simp
  qed
qed

text \<open>
  Claim C8, as amended. Take a scheduler built by the constructor (with no argument, or
  with a BPM that is not \<open>NaN\<close>) and any sequence of \<open>setBPM\<close>, \<open>scheduleNote\<close>,
  \<open>scheduleAtBeat\<close>, \<open>quantizeAll\<close> and \<open>clear\<close> calls (those that throw included: they
  change nothing) in which every number passed as \<open>bpm\<close>, \<open>note\<close>, \<open>time\<close> or \<open>beat\<close>
  is finite (not \<open>NaN\<close>) and no subdivision is a name of \<open>Object.prototype\<close>. Then
  every stored event has a note in \<open>[0,127]\<close> and a time \<open>\<ge> 0\<close>. Its duration and its
  velocity are stored as passed, without validation: they satisfy \<open>duration > 0\<close> and
  \<open>velocity \<in> [0,127]\<close> when every duration passed to \<open>scheduleNote\<close> is positive and
  every velocity passed is in \<open>[0,127]\<close> (the defaults, one beat or the subdivision's
  duration and 100, are).
\<close>

theorem stored_events_valid:
  assumes "newScheduler b = Inr s0" and "b \<noteq> Some NaN" and "list_all finiteCall calls"
  shows "list_all noteTimeOk (getSchedule (schedulerRun s0 calls))
         \<and> (list_all suppliedArgsOk calls \<longrightarrow>
              list_all durationVelocityOk (getSchedule (schedulerRun s0 calls)))"
proof -
  have inv: "schedulerInv s0" using assms(2,1) by (rule newScheduler_inv)
  have "scheduledNotes s0 = []" using assms(1) by (rule newScheduler_notes)
  then have dv: "list_all durationVelocityOk (scheduledNotes s0)" by simp
  show ?thesis
    using schedulerRun_inv [OF inv assms(3)] schedulerRun_durVel [OF inv dv assms(3)]
    by (simp add: schedulerInv_def getSchedule_def)
qed

lemmas scheduler_eval =
  scheduler120_def scheduleNote_def scheduleAtBeat_def setBPM_def
  getSubdivisionDuration_def SUBDIVISIONS_def objectPrototypeNames_def orQuarter_def
  sortByTime_def comparator_def quantizeAll_def quantize_def getSchedule_def clear_def
  Let_def round_def fl_numeral fl_neg_numeral fl_zero fl_one fl_half

theorem stored_events_valid_witness:
  "newScheduler None = Inr scheduler120
   \<and> None \<noteq> Some NaN
   \<and> list_all finiteCall
        [SetBPM (Num 10),
         ScheduleNote (Num 60) (Num 1000) None None,
         SetBPM (Num 60),
         ScheduleAtBeat (Num 64) (Num 2) (Some ''eighth'') (Some (Num 90)),
         ScheduleNote (Num 128) (Num 0) None None,
         ScheduleNote (Num 67) (Num 0) (Some (Num 40)) None,
         QuantizeAll (Some ''half'')]
   \<and> list_all suppliedArgsOk
        [SetBPM (Num 10),
         ScheduleNote (Num 60) (Num 1000) None None,
         SetBPM (Num 60),
         ScheduleAtBeat (Num 64) (Num 2) (Some ''eighth'') (Some (Num 90)),
         ScheduleNote (Num 128) (Num 0) None None,
         ScheduleNote (Num 67) (Num 0) (Some (Num 40)) None,
         QuantizeAll (Some ''half'')]
   \<and> getSchedule (schedulerRun scheduler120
        [SetBPM (Num 10),
         ScheduleNote (Num 60) (Num 1000) None None,
         SetBPM (Num 60),
         ScheduleAtBeat (Num 64) (Num 2) (Some ''eighth'') (Some (Num 90)),
         ScheduleNote (Num 128) (Num 0) None None,
         ScheduleNote (Num 67) (Num 0) (Some (Num 40)) None,
         QuantizeAll (Some ''half'')])
       = [\<lparr>ev_note = Num 67, ev_time = Num 0, ev_duration = Num 40, ev_velocity = Num 100\<rparr>,
          \<lparr>ev_note = Num 60, ev_time = Num 2000, ev_duration = Num 500, ev_velocity = Num 100\<rparr>,
          \<lparr>ev_note = Num 64, ev_time = Num 2000, ev_duration = Num 500, ev_velocity = Num 90\<rparr>]
   \<and> list_all noteTimeOk (getSchedule (schedulerRun scheduler120
        [SetBPM (Num 10),
         ScheduleNote (Num 60) (Num 1000) None None,
         SetBPM (Num 60),
         ScheduleAtBeat (Num 64) (Num 2) (Some ''eighth'') (Some (Num 90)),
         ScheduleNote (Num 128) (Num 0) None None,
         ScheduleNote (Num 67) (Num 0) (Some (Num 40)) None,
         QuantizeAll (Some ''half'')]))
   \<and> list_all durationVelocityOk (getSchedule (schedulerRun scheduler120
        [SetBPM (Num 10),
         ScheduleNote (Num 60) (Num 1000) None None,
         SetBPM (Num 60),
         ScheduleAtBeat (Num 64) (Num 2) (Some ''eighth'') (Some (Num 90)),
         ScheduleNote (Num 128) (Num 0) None None,
         ScheduleNote (Num 67) (Num 0) (Some (Num 40)) None,
         QuantizeAll (Some ''half'')]))"
proof -
  let ?calls = "[SetBPM (Num 10),
         ScheduleNote (Num 60) (Num 1000) None None,
         SetBPM (Num 60),
         ScheduleAtBeat (Num 64) (Num 2) (Some ''eighth'') (Some (Num 90)),
         ScheduleNote (Num 128) (Num 0) None None,
         ScheduleNote (Num 67) (Num 0) (Some (Num 40)) None,
         QuantizeAll (Some ''half'')]"
  have f: "list_all finiteCall ?calls"
    by (simp add: orQuarter_def objectPrototypeNames_def)
  have a: "list_all suppliedArgsOk ?calls"
    by (simp add: midiRange_def)
  have n: "(None :: jsnum option) \<noteq> Some NaN" by simp
  have e: "getSchedule (schedulerRun scheduler120 ?calls)
       = [\<lparr>ev_note = Num 67, ev_time = Num 0, ev_duration = Num 40, ev_velocity = Num 100\<rparr>,
          \<lparr>ev_note = Num 60, ev_time = Num 2000, ev_duration = Num 500, ev_velocity = Num 100\<rparr>,
          \<lparr>ev_note = Num 64, ev_time = Num 2000, ev_duration = Num 500, ev_velocity = Num 90\<rparr>]"
    by (simp add: scheduler_eval)
  from stored_events_valid [OF newScheduler_default n f] a
  have "list_all noteTimeOk (getSchedule (schedulerRun scheduler120 ?calls))
    \<and> list_all durationVelocityOk (getSchedule (schedulerRun scheduler120 ?calls))"
    by blast
  with newScheduler_default n f a e show ?thesis by blast
qed

text \<open>
  The claim as it was stated fails: \<open>scheduleNote(60, 0, -5, 999)\<close> returns without
  error and stores an event of duration \<open>-5\<close> and velocity \<open>999\<close>.
\<close>

theorem stored_events_unvalidated:
  "newScheduler None = Inr scheduler120
   \<and> getSchedule (schedulerRun scheduler120
        [ScheduleNote (Num 60) (Num 0) (Some (Num (- 5))) (Some (Num 999))])
       = [\<lparr>ev_note = Num 60, ev_time = Num 0, ev_duration = Num (- 5), ev_velocity = Num 999\<rparr>]
   \<and> \<not> durationVelocityOk
         \<lparr>ev_note = Num 60, ev_time = Num 0, ev_duration = Num (- 5), ev_velocity = Num 999\<rparr>"
  by (simp add: newScheduler_default scheduler_eval durationVelocityOk_def)

text \<open>
  On calls with finite numbers and subdivisions that are not names of
  \<open>Object.prototype\<close>, the schedule is sorted by time after every call.
\<close>

lemma finite_calls_sorted:
  assumes "newScheduler b = Inr s0" and "b \<noteq> Some NaN" and "list_all finiteCall calls"
  shows "nonDecreasing (map ev_time (getSchedule (schedulerRun s0 calls)))"
  using schedulerRun_inv [OF newScheduler_inv [OF assms(2,1)] assms(3)]
  by (simp add: schedulerInv_def getSchedule_def)

text \<open>
  Claim C7 says that the schedule is always sorted by time, after any sequence of
  calls. The code sorts after every push and after \<open>quantizeAll\<close>, and it validates
  what it is given, but two arguments get past the validation.
  \<open>quantizeAll('toString')\<close> does not throw: \<open>SUBDIVISIONS['toString']\<close> is the function
  inherited from \<open>Object.prototype\<close>, not \<open>undefined\<close>, so the grid is \<open>NaN\<close> and every
  time becomes \<open>NaN\<close>. And \<open>scheduleNote(64, NaN)\<close> stores a \<open>NaN\<close> time: \<open>NaN\<close> is a
  number, and \<open>NaN < 0\<close> is false. In both cases the times of \<open>getSchedule()\<close> are
  not non-decreasing.
\<close>

theorem schedule_not_sorted:
  "newScheduler None = Inr scheduler120
   \<and> map ev_time (getSchedule (schedulerRun scheduler120
        [ScheduleNote (Num 60) (Num 110) None None, ScheduleNote (Num 64) (Num 700) None None]))
       = [Num 110, Num 700]
   \<and> getSubdivisionDuration
        (schedulerRun scheduler120
          [ScheduleNote (Num 60) (Num 110) None None, ScheduleNote (Num 64) (Num 700) None None])
        ''toString'' = Inr NaN
   \<and> map ev_time (getSchedule (schedulerRun scheduler120
        [ScheduleNote (Num 60) (Num 110) None None, ScheduleNote (Num 64) (Num 700) None None,
         QuantizeAll (Some ''toString'')]))
       = [NaN, NaN]
   \<and> \<not> nonDecreasing (map ev_time (getSchedule (schedulerRun scheduler120
        [ScheduleNote (Num 60) (Num 110) None None, ScheduleNote (Num 64) (Num 700) None None,
         QuantizeAll (Some ''toString'')])))
   \<and> map ev_time (getSchedule (schedulerRun scheduler120
        [ScheduleNote (Num 60) (Num 5) None None, ScheduleNote (Num 64) NaN None None]))
       = [Num 5, NaN]
   \<and> \<not> nonDecreasing (map ev_time (getSchedule (schedulerRun scheduler120
        [ScheduleNote (Num 60) (Num 5) None None, ScheduleNote (Num 64) NaN None None])))"
  by (simp add: newScheduler_default scheduler_eval)

lemma roundToGrid_stable:
  fixes g t :: real
  assumes g: "0 < g" and t: "0 \<le> t" "t \<le> 2 ^ 50 * g"
  defines "k \<equiv> round (fl (t / g))"
  defines "q \<equiv> fl (of_int k * g)"
  shows "round (fl (q / g)) = k" and "0 \<le> k" and "0 \<le> q"
    and "\<bar>t - of_int k * g\<bar> \<le> g / 2 + t / 2 ^ 53"
proof -
  let ?r = "fl (t / g)"
  have tg0: "0 \<le> t / g" using g t by simp
  have tg: "t / g \<le> 2 ^ 50" using g t by (simp add: pos_divide_le_eq)
  have r0: "0 \<le> ?r" using tg0 by (rule fl_nonneg)
  show k0: "0 \<le> k" unfolding k_def using r0 by (rule round_nonneg)
  have "?r \<le> t / g * (1 + 1 / 2 ^ 53)" using tg0 by (rule fl_upper)
  also have "\<dots> \<le> 2 ^ 50 * (1 + 1 / 2 ^ 53)" using tg by (intro mult_right_mono) simp_all
  finally have r_up: "?r \<le> 2 ^ 50 + 1 / 8" by simp
  have "of_int k \<le> ?r + 1 / 2" unfolding k_def by (rule of_int_round_le)
  with r_up have "real_of_int k < of_int (2 ^ 50 + 1)" by simp
  then have "k < 2 ^ 50 + 1" by (simp only: of_int_less_iff)
  then have k_up: "real_of_int k \<le> 2 ^ 50" by simp
  have k0': "0 \<le> real_of_int k" using k0 by simp
  let ?x = "of_int k * g"
  have x0: "0 \<le> ?x" using k0' g by simp
  show q0: "0 \<le> q" unfolding q_def using x0 by (rule fl_nonneg)
  have "\<bar>q - ?x\<bar> \<le> \<bar>?x\<bar> / 2 ^ 53" unfolding q_def by (rule fl_error)
  then have qx: "\<bar>q - ?x\<bar> \<le> ?x / 2 ^ 53" using x0 by simp
  have "q / g - of_int k = (q - ?x) / g" using g by (simp add: field_simps)
  then have "\<bar>q / g - of_int k\<bar> = \<bar>q - ?x\<bar> / g" using g by (simp add: abs_divide)
  also have "\<dots> \<le> (?x / 2 ^ 53) / g" using qx g by (intro divide_right_mono) simp_all
  also have "\<dots> = of_int k / 2 ^ 53" using g by simp
  also have "\<dots> \<le> 2 ^ 50 / 2 ^ 53" using k_up by (intro divide_right_mono) simp_all
  finally have d1: "\<bar>q / g - of_int k\<bar> \<le> 1 / 8" by simp
  let ?y = "q / g"
  have y0: "0 \<le> ?y" using q0 g by simp
  have y_up: "?y \<le> 2 ^ 50 + 1 / 8" using d1 k_up by linarith
  have "\<bar>fl ?y - ?y\<bar> \<le> \<bar>?y\<bar> / 2 ^ 53" by (rule fl_error)
  also have "\<dots> = ?y / 2 ^ 53" using y0 by (simp only: abs_of_nonneg)
  also have "\<dots> \<le> (2 ^ 50 + 1 / 8) / 2 ^ 53" using y_up by (intro divide_right_mono) simp_all
  finally have d2: "\<bar>fl ?y - ?y\<bar> \<le> 1 / 4" by simp
  from d1 d2 have "fl ?y - 1 / 2 < of_int k" "of_int k \<le> fl ?y + 1 / 2" by linarith+
  then show "round (fl ?y) = k" by (rule round_unique)
  have "\<bar>?r - t / g\<bar> \<le> \<bar>t / g\<bar> / 2 ^ 53" by (rule fl_error)
  then have e1: "\<bar>?r - t / g\<bar> \<le> t / g / 2 ^ 53" using tg0 by simp
  have e2: "\<bar>of_int k - ?r\<bar> \<le> 1 / 2" unfolding k_def by (rule of_int_round_abs_le)
  from e1 e2 have "\<bar>of_int k - t / g\<bar> \<le> 1 / 2 + t / g / 2 ^ 53" by linarith
  then have "\<bar>of_int k - t / g\<bar> * g \<le> (1 / 2 + t / g / 2 ^ 53) * g"
    using g by (intro mult_right_mono) simp_all
  moreover have "\<bar>of_int k - t / g\<bar> * g = \<bar>t - of_int k * g\<bar>"
  proof -
    have "\<bar>of_int k - t / g\<bar> * g = \<bar>(of_int k - t / g) * g\<bar>" using g by (simp add: abs_mult)
    also have "(of_int k - t / g) * g = of_int k * g - t" using g by (simp add: left_diff_distrib)
    finally show ?thesis by (simp add: abs_minus_commute)
  qed
  moreover have "(1 / 2 + t / g / 2 ^ 53) * g = g / 2 + t / 2 ^ 53"
    using g by (simp add: distrib_right)
  ultimately show "\<bar>t - of_int k * g\<bar> \<le> g / 2 + t / 2 ^ 53" by simp
qed


lemma quantize_default:
  "quantize s t None = quantize s t (Some ''quarter'')"
  by (simp add: quantize_def orQuarter_def)

lemma quantize_named:
  assumes "map_of SUBDIVISIONS name = Some m" "beatDurationMs s = Num beat" "fl (beat * m) \<noteq> 0"
  shows "quantize s (Num t) (Some name) =
         Inr (Num (fl (of_int (round (fl (t / fl (beat * m)))) * fl (beat * m))))"
proof -
  from assms(1) have "name \<noteq> []" by (auto simp: SUBDIVISIONS_def split: if_splits)
  then have "orQuarter (Some name) = name" by (simp add: orQuarter_def)
  with assms show ?thesis
    by (simp add: quantize_def getSubdivisionDuration_def)
qed

text \<open>
  Claim C6, as amended. In the doubles the code computes with: for a scheduler built by
  the constructor (with no argument, or with a BPM that is not \<open>NaN\<close>) and brought
  anywhere by calls with finite numbers and subdivisions that are not names of
  \<open>Object.prototype\<close>, for every subdivision name of the table, with \<open>g\<close> its duration
  (the rounded product of the beat and the multiplier), and for every finite time \<open>t\<close>
  with \<open>0 \<le> t \<le> 2\<^sup>5\<^sup>0 \<sqdot> g\<close>, \<open>quantize\<close> returns a \<open>q\<close> that it maps to itself. This
  \<open>q\<close> is the double nearest to \<open>k \<sqdot> g\<close>, where \<open>k\<close> is the integer nearest to the
  rounded quotient \<open>t / g\<close>, the upper one on a tie, and \<open>k \<sqdot> g\<close> is within
  \<open>g / 2 + t / 2\<^sup>5\<^sup>3\<close> of \<open>t\<close>. Without a subdivision, \<open>quantize\<close> takes
  \<open>'quarter'\<close>.
\<close>

theorem quantize_idempotent:
  assumes "newScheduler b = Inr s0" and "b \<noteq> Some NaN" and "list_all finiteCall calls"
    and "map_of SUBDIVISIONS name = Some m"
    and "beatDurationMs (schedulerRun s0 calls) = Num beat"
    and "0 \<le> t" and "t \<le> 2 ^ 50 * fl (beat * m)"
  shows "\<exists>g q k.
           g = fl (beat * m) \<and> 0 < g
           \<and> quantize (schedulerRun s0 calls) (Num t) (Some name) = Inr (Num q)
           \<and> quantize (schedulerRun s0 calls) (Num q) (Some name) = Inr (Num q)
           \<and> q = fl (of_int k * g)
           \<and> of_int k - 1 / 2 \<le> fl (t / g) \<and> fl (t / g) < of_int k + 1 / 2
           \<and> \<bar>t - of_int k * g\<bar> \<le> g / 2 + t / 2 ^ 53
           \<and> quantize (schedulerRun s0 calls) (Num t) None
               = quantize (schedulerRun s0 calls) (Num t) (Some ''quarter'')"
proof -
  let ?s = "schedulerRun s0 calls"
  have "schedulerInv ?s"
    using assms(1,2,3) by (intro schedulerRun_inv newScheduler_inv)
  then have "numGreater (beatDurationMs ?s) 0" by (simp add: schedulerInv_def)
  then have beat: "0 < beat" by (simp add: assms(5))
  define g where "g = fl (beat * m)"
  define k where "k = round (fl (t / g))"
  define q where "q = fl (of_int k * g)"
  from assms(4) have "0 < m" by (rule subdivision_positive)
  with beat have "0 < beat * m" by simp
  then have g0: "0 < g" unfolding g_def by (rule fl_pos)
  then have gn: "fl (beat * m) \<noteq> 0" by (simp add: g_def)
  have tb: "t \<le> 2 ^ 50 * g" unfolding g_def by (rule assms(7))
  note st = roundToGrid_stable [OF g0 assms(6) tb, folded k_def, folded q_def]
  have q1: "quantize ?s (Num t) (Some name) = Inr (Num q)"
    unfolding q_def k_def g_def by (rule quantize_named [OF assms(4,5) gn])
  have "quantize ?s (Num q) (Some name) = Inr (Num (fl (of_int (round (fl (q / g))) * g)))"
    unfolding g_def by (rule quantize_named [OF assms(4,5) gn])
  then have "quantize ?s (Num q) (Some name) = Inr (Num (fl (of_int k * g)))"
    by (simp only: st(1))
  then have q2: "quantize ?s (Num q) (Some name) = Inr (Num q)"
    by (simp only: q_def [symmetric])
  have lo: "of_int k - 1 / 2 \<le> fl (t / g)"
    unfolding k_def using of_int_round_le [of "fl (t / g)"] by simp
  have hi: "fl (t / g) < of_int k + 1 / 2"
    unfolding k_def using of_int_round_gt [of "fl (t / g)"] by simp
  from g_def g0 q1 q2 q_def lo hi st(4) quantize_default [of ?s "Num t"]
  show ?thesis by blast
qed

text \<open>
  The doubles of the examples below. At 84 BPM the beat is the double nearest to
  \<open>1000 \<sqdot> fl (60 / 84)\<close>, a little above \<open>5000 / 7\<close>.
\<close>

lemma fl_bpm84_a: "fl (5 / 7) = 6433713753386423 / 9007199254740992"
  by (rule fl_small [where k = 53]) (simp_all add: roundEven_def)

lemma fl_bpm84_b: "fl (804214219173302875 / 1125899906842624) = 6282923587291429 / 8796093022208"
  by (rule fl_small [where k = 43]) (simp_all add: roundEven_def)

lemma fl_bpm84_eighth: "fl (6282923587291429 / 17592186044416) = 6282923587291429 / 17592186044416"
  by (rule fl_small [where k = 44]) (simp_all add: roundEven_def)

lemma fl_bpm84_quarter: "fl (6282923587291429 / 8796093022208) = 6282923587291429 / 8796093022208"
  by (rule fl_small [where k = 43]) (simp_all add: roundEven_def)

lemma fl_q84_e1: "fl (43980465111040000 / 6282923587291429) = 7881299347898367 / 1125899906842624"
  by (rule fl_small [where k = 50]) (simp_all add: roundEven_def)

lemma fl_q84_e2: "fl (43980465111040003 / 17592186044416) = 2500"
  by (rule fl_small [where k = 41]) (simp_all add: roundEven_def)

lemma fl_q84_q1: "fl (21990232555520000 / 6282923587291429) = 7881299347898367 / 2251799813685248"
  by (rule fl_small [where k = 51]) (simp_all add: roundEven_def)

lemma fl_q84_q2: "fl (18848770761874287 / 8796093022208) = 1178048172617143 / 549755813888"
  by (rule fl_small [where k = 41]) (simp_all add: roundEven_def)

lemma fl_q84_q3: "fl (18848770761874288 / 6282923587291429) = 3"
  by (rule fl_small [where k = 51]) (simp_all add: roundEven_def)

lemma fl_q120_e1: "fl (13 / 25) = 1170935903116329 / 2251799813685248"
  by (rule fl_small [where k = 53]) (simp_all add: roundEven_def)

lemma fl_q120_q1: "fl (13 / 50) = 1170935903116329 / 4503599627370496"
  by (rule fl_small [where k = 54]) (simp_all add: roundEven_def)

lemma fl_big_1: "fl (288230376151723968 / 125) = 4611686018427583 / 2"
  by (rule fl_small [where k = 1]) (simp_all add: roundEven_def)

lemma fl_big_2: "fl (1152921504606896000) = 1152921504606896128"
  by (rule fl_large [where k = 8]) (simp_all add: roundEven_def)

lemma fl_big_3: "fl (288230376151724032 / 125) = 4611686018427585 / 2"
  by (rule fl_small [where k = 1]) (simp_all add: roundEven_def)

lemma fl_big_4: "fl (1152921504606896500) = 1152921504606896384"
  by (rule fl_large [where k = 8]) (simp_all add: roundEven_def)

lemmas fl_values =
  fl_bpm84_a fl_bpm84_b fl_bpm84_eighth fl_bpm84_quarter fl_q84_e1 fl_q84_e2 fl_q84_q1
  fl_q84_q2 fl_q84_q3 fl_q120_e1 fl_q120_q1 fl_big_1 fl_big_2 fl_big_3 fl_big_4

lemma quantize_eval:
  assumes "getSubdivisionDuration s (orQuarter sub) = Inr (Num g)" "g \<noteq> 0"
    "fl (t / g) = r" "round r = k" "fl (of_int k * g) = q"
  shows "quantize s (Num t) sub = Inr (Num q)"
  using assms by (simp add: quantize_def)

lemma scheduler84:
  "schedulerRun scheduler120 [SetBPM (Num 84)] =
     \<lparr>bpm = Num 84, beatDurationMs = Num (6282923587291429 / 8796093022208),
      scheduledNotes = [], nextBeatIndex = 0, startTime = None\<rparr>"
  by (simp add: scheduler120_def setBPM_def fl_values)

lemma q84_eighth:
  "quantize (schedulerRun scheduler120 [SetBPM (Num 84)]) (Num 2500) (Some ''eighth'')
     = Inr (Num 2500)"
  unfolding scheduler84
  by (rule quantize_eval [where g = "6282923587291429 / 17592186044416"
        and r = "7881299347898367 / 1125899906842624" and k = 7])
     (simp_all add: getSubdivisionDuration_def SUBDIVISIONS_def orQuarter_def fl_values round_def)

lemma q84_quarter:
  "quantize (schedulerRun scheduler120 [SetBPM (Num 84)]) (Num 2500) None
     = Inr (Num (1178048172617143 / 549755813888))"
  unfolding scheduler84
  by (rule quantize_eval [where g = "6282923587291429 / 8796093022208"
        and r = "7881299347898367 / 2251799813685248" and k = 3])
     (simp_all add: getSubdivisionDuration_def SUBDIVISIONS_def orQuarter_def fl_values round_def)

lemma q84_quarter_again:
  "quantize (schedulerRun scheduler120 [SetBPM (Num 84)])
     (Num (1178048172617143 / 549755813888)) None
     = Inr (Num (1178048172617143 / 549755813888))"
  unfolding scheduler84
  by (rule quantize_eval [where g = "6282923587291429 / 8796093022208"
        and r = 3 and k = 3])
     (simp_all add: getSubdivisionDuration_def SUBDIVISIONS_def orQuarter_def fl_values round_def)

lemma q120_eighth:
  "quantize scheduler120 (Num 130) (Some ''eighth'') = Inr (Num 250)"
  by (rule quantize_eval [where g = 250 and r = "1170935903116329 / 2251799813685248" and k = 1])
     (simp_all add: scheduler120_def getSubdivisionDuration_def SUBDIVISIONS_def orQuarter_def
        fl_values fl_numeral round_def)

lemma q120_quarter:
  "quantize scheduler120 (Num 130) None = Inr (Num 0)"
  by (rule quantize_eval [where g = 500 and r = "1170935903116329 / 4503599627370496" and k = 0])
     (simp_all add: scheduler120_def getSubdivisionDuration_def SUBDIVISIONS_def orQuarter_def
        fl_values fl_numeral fl_zero round_def)

lemma qbig_1:
  "quantize scheduler120 (Num 1152921504606895872) None = Inr (Num 1152921504606896128)"
  by (rule quantize_eval [where g = 500 and r = "4611686018427583 / 2"
        and k = 2305843009213792])
     (simp_all add: scheduler120_def getSubdivisionDuration_def SUBDIVISIONS_def orQuarter_def
        fl_values fl_numeral round_def)

lemma qbig_2:
  "quantize scheduler120 (Num 1152921504606896128) None = Inr (Num 1152921504606896384)"
  by (rule quantize_eval [where g = 500 and r = "4611686018427585 / 2"
        and k = 2305843009213793])
     (simp_all add: scheduler120_def getSubdivisionDuration_def SUBDIVISIONS_def orQuarter_def
        fl_values fl_numeral round_def)

theorem quantize_idempotent_witness:
  "newScheduler None = Inr scheduler120
   \<and> None \<noteq> Some NaN
   \<and> list_all finiteCall [SetBPM (Num 84)]
   \<and> map_of SUBDIVISIONS ''eighth'' = Some (1 / 2)
   \<and> beatDurationMs (schedulerRun scheduler120 [SetBPM (Num 84)])
       = Num (6282923587291429 / 8796093022208)
   \<and> fl (6282923587291429 / 8796093022208 * (1 / 2)) = 6282923587291429 / 17592186044416
   \<and> (0 :: real) \<le> 2500
   \<and> (2500 :: real) \<le> 2 ^ 50 * fl (6282923587291429 / 8796093022208 * (1 / 2))
   \<and> quantize (schedulerRun scheduler120 [SetBPM (Num 84)]) (Num 2500) (Some ''eighth'')
       = Inr (Num 2500)
   \<and> quantize (schedulerRun scheduler120 [SetBPM (Num 84)]) (Num 2500) None
       = Inr (Num (1178048172617143 / 549755813888))
   \<and> quantize (schedulerRun scheduler120 [SetBPM (Num 84)])
         (Num (1178048172617143 / 549755813888)) None
       = Inr (Num (1178048172617143 / 549755813888))
   \<and> quantize scheduler120 (Num 130) (Some ''eighth'') = Inr (Num 250)
   \<and> quantize scheduler120 (Num 130) None = Inr (Num 0)
   \<and> (\<exists>q k. quantize (schedulerRun scheduler120 [SetBPM (Num 84)]) (Num 2500) (Some ''eighth'')
               = Inr (Num q)
            \<and> quantize (schedulerRun scheduler120 [SetBPM (Num 84)]) (Num q) (Some ''eighth'')
               = Inr (Num q)
            \<and> q = fl (of_int k * (6282923587291429 / 17592186044416))
            \<and> of_int k - 1 / 2 \<le> fl (2500 / (6282923587291429 / 17592186044416))
            \<and> fl (2500 / (6282923587291429 / 17592186044416)) < of_int k + 1 / 2
            \<and> \<bar>(2500 :: real) - of_int k * (6282923587291429 / 17592186044416)\<bar>
                \<le> 6282923587291429 / 17592186044416 / 2 + 2500 / 2 ^ 53)"
proof -
  let ?s = "schedulerRun scheduler120 [SetBPM (Num 84)]"
  have n: "(None :: jsnum option) \<noteq> Some NaN" by simp
  have f: "list_all finiteCall [SetBPM (Num 84)]" by simp
  have m: "map_of SUBDIVISIONS ''eighth'' = Some (1 / 2)" by (simp add: SUBDIVISIONS_def)
  have t: "(0 :: real) \<le> 2500" by simp
  have b: "beatDurationMs ?s = Num (6282923587291429 / 8796093022208)"
    by (simp only: scheduler84 Scheduler.simps)
  have g: "fl (6282923587291429 / 8796093022208 * (1 / 2)) = 6282923587291429 / 17592186044416"
    by (simp add: fl_bpm84_eighth)
  have u: "(2500 :: real) \<le> 2 ^ 50 * fl (6282923587291429 / 8796093022208 * (1 / 2))"
    by (simp add: fl_bpm84_eighth)
  from quantize_idempotent [OF newScheduler_default n f m b t u]
  obtain g' q k where
    r: "g' = fl (6282923587291429 / 8796093022208 * (1 / 2))" "0 < g'"
      "quantize ?s (Num 2500) (Some ''eighth'') = Inr (Num q)"
      "quantize ?s (Num q) (Some ''eighth'') = Inr (Num q)"
      "q = fl (of_int k * g')"
      "of_int k - 1 / 2 \<le> fl (2500 / g')" "fl (2500 / g') < of_int k + 1 / 2"
      "\<bar>(2500 :: real) - of_int k * g'\<bar> \<le> g' / 2 + 2500 / 2 ^ 53"
    by blast
  from r(1) g have g': "g' = 6282923587291429 / 17592186044416" by simp
  have e: "\<exists>q k. quantize ?s (Num 2500) (Some ''eighth'') = Inr (Num q)
            \<and> quantize ?s (Num q) (Some ''eighth'') = Inr (Num q)
            \<and> q = fl (of_int k * (6282923587291429 / 17592186044416))
            \<and> of_int k - 1 / 2 \<le> fl (2500 / (6282923587291429 / 17592186044416))
            \<and> fl (2500 / (6282923587291429 / 17592186044416)) < of_int k + 1 / 2
            \<and> \<bar>(2500 :: real) - of_int k * (6282923587291429 / 17592186044416)\<bar>
                \<le> 6282923587291429 / 17592186044416 / 2 + 2500 / 2 ^ 53"
    apply (insert r(3-8) [unfolded g'])
    apply (rule exI [of _ q], rule exI [of _ k])
    apply (intro conjI; assumption)
    done
  from newScheduler_default n f m b g t u q84_eighth q84_quarter q84_quarter_again
    q120_eighth q120_quarter e
  show ?thesis by (intro conjI)
qed

text \<open>
  The claim as it was stated, for every \<open>t \<ge> 0\<close>, fails for large times. At 120 BPM,
  \<open>quantize(1152921504606895872)\<close> is \<open>1152921504606896128\<close>, and \<open>quantize\<close> of that
  is \<open>1152921504606896384\<close>: the quotient by the grid of 500 is above \<open>2\<^sup>5\<^sup>1\<close>, where
  the doubles are the multiples of \<open>1/2\<close>, the rounded quotient of a rounded grid point
  is a half-integer, and \<open>Math.round\<close> takes it up to the next grid point.
\<close>

theorem quantize_not_idempotent_large:
  "newScheduler None = Inr scheduler120
   \<and> (0 :: real) \<le> 1152921504606895872
   \<and> quantize scheduler120 (Num 1152921504606895872) None = Inr (Num 1152921504606896128)
   \<and> quantize scheduler120 (Num 1152921504606896128) None = Inr (Num 1152921504606896384)
   \<and> quantize scheduler120 (Num 1152921504606896128) None
       \<noteq> quantize scheduler120 (Num 1152921504606895872) None"
  by (simp add: newScheduler_default qbig_1 qbig_2)

section \<open>OSC bridge\<close>


lemma connect_cases:
  "connect b = ([], True, b) \<and> bridge_state b = CONNECTED
   \<or> connect b = ([CONNECTING, ERROR], False,
         b\<lparr>bridge_state := ERROR, lastError := Some ''Invalid target''\<rparr>)
       \<and> bridge_state b \<noteq> CONNECTED \<and> invalidTarget b
   \<or> connect b = ([CONNECTING, CONNECTED], True, b\<lparr>bridge_state := CONNECTED\<rparr>)
       \<and> bridge_state b \<noteq> CONNECTED \<and> \<not> invalidTarget b"
  by (simp add: connect_def invalidTarget_def Let_def)

lemma send_writes:
  "send clock b param v = Inr (ws, r, b') \<Longrightarrow> ws = [] \<and> bridge_state b' = bridge_state b
     \<and> host b' = host b \<and> port b' = port b"
  by (auto simp: send_def split: if_splits sum.splits)

lemma sendBundle_writes:
  "sendBundle clock b st = Inr (ws, r, b') \<Longrightarrow> ws = [] \<and> bridge_state b' = bridge_state b
     \<and> host b' = host b \<and> port b' = port b"
  by (auto simp: sendBundle_def split: if_splits sum.splits)

lemma bridgeStep_no_write:
  assumes "c \<noteq> Connect" "c \<noteq> Disconnect"
  shows "fst (bridgeStep b c) = [] \<and> bridge_state (snd (bridgeStep b c)) = bridge_state b
     \<and> invalidTarget (snd (bridgeStep b c)) = invalidTarget b"
proof (cases c)
  case (Send clock param v)
  then show ?thesis
    by (cases "send clock b param v") (auto simp: invalidTarget_def dest: send_writes)
next
  case (SendBundle clock st)
  then show ?thesis
    by (cases "sendBundle clock b st") (auto simp: invalidTarget_def dest: sendBundle_writes)
qed (use assms in simp_all)

lemma send_not_connected:
  "bridge_state b \<noteq> CONNECTED \<Longrightarrow> send clock b param v = Inr ([], None, b)"
  by (simp add: send_def)

lemma sendBundle_not_connected:
  "bridge_state b \<noteq> CONNECTED \<Longrightarrow> sendBundle clock b st = Inr ([], None, b)"
  by (simp add: sendBundle_def)

lemma bridgeStep_not_connected:
  assumes "bridge_state b \<noteq> CONNECTED" "c \<noteq> Connect" "c \<noteq> Disconnect"
  shows "bridgeStep b c = ([], b)"
  using assms by (cases c) (simp_all add: send_not_connected sendBundle_not_connected)

lemma bridgeStep_inv: "bridgeInv b \<Longrightarrow> bridgeInv (snd (bridgeStep b c))"
proof (cases "c = Connect \<or> c = Disconnect")
  case True
  assume "bridgeInv b"
  with True show ?thesis
    using connect_cases [of b]
    by (auto simp: bridgeInv_def disconnect_def invalidTarget_def)
next
  case False
  assume "bridgeInv b"
  with False bridgeStep_no_write [of c b] show ?thesis
    by (simp add: bridgeInv_def)
qed

lemma bridgeRun_inv: "bridgeInv b \<Longrightarrow> bridgeInv (bridgeRun b cs)"
  by (induction cs arbitrary: b) (simp_all add: bridgeStep_inv)

lemma newOSCBridge_inv: "bridgeInv (newOSCBridge options)"
  by (simp add: bridgeInv_def newOSCBridge_def)

lemma bridgeStep_moves:
  assumes "bridgeInv b" "movesAlong codeTransition (bridge_state (snd (bridgeStep b c)) # rest)"
  shows "movesAlong codeTransition (bridge_state b # fst (bridgeStep b c) @ rest)"
proof (cases "c = Connect \<or> c = Disconnect")
  case True
  then show ?thesis
  proof
    assume "c = Connect"
    with assms connect_cases [of b] show ?thesis
      by (cases "bridge_state b")
        (auto simp: bridgeInv_def codeTransition_def listedTransition_def)
  next
    assume "c = Disconnect"
    with assms show ?thesis
      by (cases "bridge_state b")
        (auto simp: bridgeInv_def disconnect_def codeTransition_def listedTransition_def)
  qed
next
  case False
  with assms bridgeStep_no_write [of c b] show ?thesis by simp
qed

lemma bridgeWrites_moves:
  "bridgeInv b \<Longrightarrow> movesAlong codeTransition (bridge_state b # bridgeWrites b cs)"
proof (induction cs arbitrary: b)
  case Nil
  then show ?case by simp
next
  case (Cons c cs)
  from Cons.prems have "bridgeInv (snd (bridgeStep b c))" by (rule bridgeStep_inv)
  then have "movesAlong codeTransition
      (bridge_state (snd (bridgeStep b c)) # bridgeWrites (snd (bridgeStep b c)) cs)"
    by (rule Cons.IH)
  with Cons.prems show ?case by (simp add: bridgeStep_moves)
qed




lemma connect_writes:
  "fst (connect b) =
     (if bridge_state b = CONNECTED then []
      else if invalidTarget b then [CONNECTING, ERROR] else [CONNECTING, CONNECTED])"
  by (simp add: connect_def invalidTarget_def Let_def)

lemma bridgeStep_writes:
  "fst (bridgeStep b c) =
     (case c of
        Connect \<Rightarrow>
          if bridge_state b = CONNECTED then []
          else if invalidTarget b then [CONNECTING, ERROR] else [CONNECTING, CONNECTED]
      | Disconnect \<Rightarrow> [DISCONNECTED]
      | _ \<Rightarrow> [])"
proof (cases "c = Connect \<or> c = Disconnect")
  case True
  then show ?thesis
    using connect_writes [of b] by (auto simp: disconnect_def split: prod.splits)
next
  case False
  with bridgeStep_no_write [of c b] show ?thesis by (cases c) simp_all
qed

lemma bridgeStep_state:
  "bridge_state (snd (bridgeStep b c)) = last (bridge_state b # fst (bridgeStep b c))"
proof (cases "c = Connect \<or> c = Disconnect")
  case True
  then show ?thesis
    using connect_cases [of b] by (auto simp: disconnect_def)
next
  case False
  with bridgeStep_no_write [of c b] show ?thesis by simp
qed

text \<open>
  Claim C9, as amended. For a bridge built by the constructor and any sequence of calls:
  \<^item> every change of \<open>this.state\<close> is one of \<open>DISCONNECTED \<rightarrow> CONNECTING\<close>,
    \<open>ERROR \<rightarrow> CONNECTING\<close>, \<open>CONNECTING \<rightarrow> CONNECTED\<close>, \<open>CONNECTING \<rightarrow> ERROR\<close>,
    \<open>CONNECTED \<rightarrow> DISCONNECTED\<close> and \<open>ERROR \<rightarrow> DISCONNECTED\<close>, and between calls the
    state is never \<open>CONNECTING\<close>;
  \<^item> only \<open>connect\<close> and \<open>disconnect\<close> write the state: \<open>disconnect()\<close> writes
    \<open>DISCONNECTED\<close>; \<open>connect()\<close> writes nothing on a \<open>CONNECTED\<close> bridge and otherwise
    (from \<open>DISCONNECTED\<close> or \<open>ERROR\<close>) writes \<open>CONNECTING\<close> and then \<open>ERROR\<close> when the
    target is invalid, \<open>CONNECTED\<close> when it is valid; \<open>send\<close>, \<open>sendBundle\<close> and
    \<open>getRecentMessages\<close> write nothing; the state a call leaves is the last one written;
  \<^item> from \<open>ERROR\<close>, \<open>connect()\<close> passes through \<open>CONNECTING\<close> and comes back to
    \<open>ERROR\<close>, returning \<open>false\<close> (the target has not changed), and no call other than
    \<open>connect\<close> and \<open>disconnect\<close> changes anything;
  \<^item> \<open>connect()\<close> on a \<open>CONNECTED\<close> bridge leaves it as it is and returns \<open>true\<close>.
\<close>

theorem bridge_lifecycle:
  "movesAlong codeTransition (bridgeTrace (newOSCBridge options) calls)
   \<and> bridge_state (bridgeRun (newOSCBridge options) calls) \<noteq> CONNECTING
   \<and> fst (bridgeStep (bridgeRun (newOSCBridge options) calls) c) =
        (case c of
           Connect \<Rightarrow>
             if bridge_state (bridgeRun (newOSCBridge options) calls) = CONNECTED then []
             else if invalidTarget (bridgeRun (newOSCBridge options) calls)
                  then [CONNECTING, ERROR] else [CONNECTING, CONNECTED]
         | Disconnect \<Rightarrow> [DISCONNECTED]
         | Send clock param v \<Rightarrow> []
         | SendBundle clock perfState \<Rightarrow> []
         | GetRecentMessages count \<Rightarrow> [])
   \<and> bridge_state (snd (bridgeStep (bridgeRun (newOSCBridge options) calls) c)) =
        last (bridge_state (bridgeRun (newOSCBridge options) calls)
              # fst (bridgeStep (bridgeRun (newOSCBridge options) calls) c))
   \<and> (bridge_state (bridgeRun (newOSCBridge options) calls) = ERROR \<longrightarrow>
        connect (bridgeRun (newOSCBridge options) calls)
          = ([CONNECTING, ERROR], False,
             (bridgeRun (newOSCBridge options) calls)\<lparr>lastError := Some ''Invalid target''\<rparr>)
        \<and> (\<forall>c'. c' \<noteq> Connect \<and> c' \<noteq> Disconnect \<longrightarrow>
              bridgeStep (bridgeRun (newOSCBridge options) calls) c'
                = ([], bridgeRun (newOSCBridge options) calls)))
   \<and> (bridge_state (bridgeRun (newOSCBridge options) calls) = CONNECTED \<longrightarrow>
        connect (bridgeRun (newOSCBridge options) calls)
          = ([], True, bridgeRun (newOSCBridge options) calls))"
proof -
  let ?b = "bridgeRun (newOSCBridge options) calls"
  have inv: "bridgeInv ?b" by (intro bridgeRun_inv newOSCBridge_inv)
  have 1: "movesAlong codeTransition (bridgeTrace (newOSCBridge options) calls)"
    unfolding bridgeTrace_def by (intro bridgeWrites_moves newOSCBridge_inv)
  have 0: "bridge_state ?b \<noteq> CONNECTING" using inv by (simp add: bridgeInv_def)
  have 2: "connect ?b = ([CONNECTING, ERROR], False, ?b\<lparr>lastError := Some ''Invalid target''\<rparr>)"
    if "bridge_state ?b = ERROR"
  proof -
    from inv that have "invalidTarget ?b" by (simp add: bridgeInv_def)
    with that connect_cases [of ?b] have
      "connect ?b = ([CONNECTING, ERROR], False,
         ?b\<lparr>bridge_state := ERROR, lastError := Some ''Invalid target''\<rparr>)"
      by auto
    moreover have "?b\<lparr>bridge_state := ERROR, lastError := Some ''Invalid target''\<rparr>
        = ?b\<lparr>lastError := Some ''Invalid target''\<rparr>"
      using that by (cases ?b) simp
    ultimately show ?thesis by simp
  qed
  have 3: "bridgeStep ?b c' = ([], ?b)"
    if "bridge_state ?b = ERROR" "c' \<noteq> Connect \<and> c' \<noteq> Disconnect" for c'
    using that by (intro bridgeStep_not_connected) simp_all
  have 4: "connect ?b = ([], True, ?b)" if "bridge_state ?b = CONNECTED"
    using that by (simp add: connect_def)
  note 5 = bridgeStep_writes [of ?b c]
  note 6 = bridgeStep_state [of ?b c]
  from 0 1 2 3 4 show ?thesis
    apply (intro conjI)
         apply assumption
        apply assumption
       apply (rule 5)
      apply (rule 6)
     apply blast
    apply blast
    done
qed

lemmas bridge_eval =
  newOSCBridge_def badPort_def noOptions_def connect_def disconnect_def send_def
  formatMessage_def isInteger_def invalidTarget_def orOmni_def Let_def bridgeTrace_def

theorem bridge_lifecycle_witness:
  "bridge_state (bridgeRun (newOSCBridge badPort) [Connect]) = ERROR
   \<and> bridgeTrace (newOSCBridge badPort) [Connect, Connect]
       = [DISCONNECTED, CONNECTING, ERROR, CONNECTING, ERROR]
   \<and> movesAlong codeTransition (bridgeTrace (newOSCBridge badPort) [Connect, Connect])
   \<and> connect (bridgeRun (newOSCBridge badPort) [Connect])
       = ([CONNECTING, ERROR], False,
          (bridgeRun (newOSCBridge badPort) [Connect])\<lparr>lastError := Some ''Invalid target''\<rparr>)
   \<and> bridgeStep (bridgeRun (newOSCBridge badPort) [Connect]) (Send 0 ''mood'' (JNum 0.5))
       = ([], bridgeRun (newOSCBridge badPort) [Connect])
   \<and> fst (bridgeStep (bridgeRun (newOSCBridge badPort) [Connect]) Disconnect) = [DISCONNECTED]
   \<and> bridge_state (bridgeRun (newOSCBridge noOptions) [Connect]) = CONNECTED
   \<and> connect (bridgeRun (newOSCBridge noOptions) [Connect])
       = ([], True, bridgeRun (newOSCBridge noOptions) [Connect])
   \<and> fst (bridgeStep (bridgeRun (newOSCBridge noOptions) [Connect])
            (Send 0 ''mood'' (JNum 0.5))) = []
   \<and> bridge_state (snd (bridgeStep (bridgeRun (newOSCBridge noOptions) [Connect])
            (Send 0 ''mood'' (JNum 0.5)))) = CONNECTED
   \<and> messageCount (snd (bridgeStep (bridgeRun (newOSCBridge noOptions) [Connect])
            (Send 0 ''mood'' (JNum 0.5)))) = 1
   \<and> bridgeTrace (newOSCBridge noOptions) [Connect, Send 0 ''mood'' (JNum 0.5), Disconnect]
       = [DISCONNECTED, CONNECTING, CONNECTED, DISCONNECTED]
   \<and> fst (bridgeStep (bridgeRun (newOSCBridge noOptions) []) Connect)
       = [CONNECTING, CONNECTED]"
proof -
  let ?send = "Send 0 ''mood'' (JNum 0.5)"
  have e: "bridge_state (bridgeRun (newOSCBridge badPort) [Connect]) = ERROR"
    by (simp add: bridge_eval)
  have c: "bridge_state (bridgeRun (newOSCBridge noOptions) [Connect]) = CONNECTED"
    by (simp add: bridge_eval)
  have d: "bridge_state (bridgeRun (newOSCBridge noOptions) []) = DISCONNECTED"
    "\<not> invalidTarget (bridgeRun (newOSCBridge noOptions) [])"
    by (simp_all add: bridge_eval)
  have n: "?send \<noteq> Connect \<and> ?send \<noteq> Disconnect" by simp
  have t1: "bridgeTrace (newOSCBridge badPort) [Connect, Connect]
       = [DISCONNECTED, CONNECTING, ERROR, CONNECTING, ERROR]"
    by (simp add: bridge_eval)
  have t2: "bridgeTrace (newOSCBridge noOptions) [Connect, ?send, Disconnect]
       = [DISCONNECTED, CONNECTING, CONNECTED, DISCONNECTED]"
    by (simp add: bridge_eval)
  have m: "messageCount (snd (bridgeStep (bridgeRun (newOSCBridge noOptions) [Connect]) ?send)) = 1"
    by (simp add: bridge_eval)
  from bridge_lifecycle [of badPort "[Connect, Connect]"]
  have 1: "movesAlong codeTransition (bridgeTrace (newOSCBridge badPort) [Connect, Connect])"
    by (rule conjunct1)
  from bridge_lifecycle [of badPort "[Connect]" Disconnect] e n
  have 2: "connect (bridgeRun (newOSCBridge badPort) [Connect])
       = ([CONNECTING, ERROR], False,
          (bridgeRun (newOSCBridge badPort) [Connect])\<lparr>lastError := Some ''Invalid target''\<rparr>)"
    and 3: "bridgeStep (bridgeRun (newOSCBridge badPort) [Connect]) ?send
       = ([], bridgeRun (newOSCBridge badPort) [Connect])"
    and 4: "fst (bridgeStep (bridgeRun (newOSCBridge badPort) [Connect]) Disconnect)
       = [DISCONNECTED]"
    by (simp_all del: bridgeRun.simps bridgeStep.simps)
  from bridge_lifecycle [of noOptions "[Connect]" ?send] c
  have 5: "connect (bridgeRun (newOSCBridge noOptions) [Connect])
       = ([], True, bridgeRun (newOSCBridge noOptions) [Connect])"
    and 6: "fst (bridgeStep (bridgeRun (newOSCBridge noOptions) [Connect]) ?send) = []"
    and 7: "bridge_state (snd (bridgeStep (bridgeRun (newOSCBridge noOptions) [Connect]) ?send))
       = CONNECTED"
    by (simp_all del: bridgeRun.simps bridgeStep.simps)
  from bridge_lifecycle [of noOptions "[]" Connect] d
  have 8: "fst (bridgeStep (bridgeRun (newOSCBridge noOptions) []) Connect)
       = [CONNECTING, CONNECTED]"
    by (simp del: bridgeRun.simps bridgeStep.simps)
  from e t1 1 2 3 4 c 5 6 7 m t2 8 show ?thesis by (intro conjI)
qed

text \<open>
  The claim as it was stated fails: on a bridge whose port is \<open>-1\<close>, a second
  \<open>connect()\<close> takes \<open>this.state\<close> from \<open>ERROR\<close> to \<open>CONNECTING\<close>, which is not one of
  the listed transitions and is a change of state made from \<open>ERROR\<close> by a call other
  than \<open>disconnect\<close>.
\<close>

theorem bridge_retry_from_error:
  "bridgeTrace (newOSCBridge badPort) [Connect, Connect]
     = [DISCONNECTED, CONNECTING, ERROR, CONNECTING, ERROR]
   \<and> \<not> movesAlong listedTransition (bridgeTrace (newOSCBridge badPort) [Connect, Connect])
   \<and> \<not> listedTransition (ERROR, CONNECTING)
   \<and> bridge_state (bridgeRun (newOSCBridge badPort) [Connect]) = ERROR
   \<and> fst (bridgeStep (bridgeRun (newOSCBridge badPort) [Connect]) Connect)
       = [CONNECTING, ERROR]"
  by (simp add: bridge_eval listedTransition_def)


section \<open>Consensus engine\<close>











text \<open>
  The engines of the data model include every engine built by the constructor (with a
  non-zero window and parameters that are not names of \<open>Object.prototype\<close>) and fed
  mappings.
\<close>

lemma map_of_fold_update:
  "map_of (fold (\<lambda>p al. AList.update p v al) ps al) q =
     (if q \<in> set ps then Some v else map_of al q)"
  by (induction ps arbitrary: al) (auto simp: update_conv')

lemma newConsensusEngine_ok:
  "INPUT_DECAY_WINDOW_MS cfg \<noteq> 0 \<Longrightarrow>
   list_all (\<lambda>p. p \<notin> set objectPrototypeNames) (PARAMETERS cfg) \<Longrightarrow>
   engineOk (newConsensusEngine cfg)"
  by (simp add: engineOk_def newConsensusEngine_def list_all_iff stateValue_def
      map_of_fold_update)

lemma update_values:
  "(k', w) \<in> set (AList.update k v al) \<Longrightarrow> w = v \<or> (k', w) \<in> set al"
  by (induction al) (auto split: if_splits)

lemma recordInput_ok:
  assumes "engineOk e" "isMapping vals"
  shows "engineOk (recordInput clock e userId vals ts)"
proof (cases "\<not> truthy userId \<or> typeof vals \<noteq> ''object''")
  case True
  with assms(1) show ?thesis by (simp add: recordInput_def)
next
  case False
  let ?i = "\<lparr>in_timestamp = orNow ts clock, in_values = vals\<rparr>"
  have "isMapping (in_values w)" if "(k', w) \<in> set (AList.update userId ?i (inputs e))" for k' w
  proof -
    from update_values [OF that] have "w = ?i \<or> (k', w) \<in> set (inputs e)" .
    then show ?thesis
    proof
      assume "w = ?i"
      with assms(2) show ?thesis by simp
    next
      assume "(k', w) \<in> set (inputs e)"
      with assms(1) show ?thesis by (auto simp: engineOk_def list_all_iff)
    qed
  qed
  then have "list_all (\<lambda>i. isMapping (in_values i)) (map snd (AList.update userId ?i (inputs e)))"
    by (auto simp: list_all_iff)
  with assms(1) False show ?thesis
    by (simp add: engineOk_def recordInput_def)
qed

lemma engine0_eq:
  "engine0 =
     \<lparr>config = DEFAULT_CONFIG, inputs = [],
      state = [(''mood'', Num 0.5), (''tempo'', Num 0.5), (''intensity'', Num 0.5),
               (''density'', Num 0.5)],
      overrides = [(''active'', OBool False), (''mood'', ONull), (''tempo'', ONull),
                   (''intensity'', ONull), (''density'', ONull)]\<rparr>"
  by (simp add: engine0_def newConsensusEngine_def DEFAULT_CONFIG_def)

lemma engineFresh_eq:
  "engineFresh = engine0\<lparr>inputs :=
     [(JStr ''u1'', \<lparr>in_timestamp = 1000, in_values = JObj [(''mood'', 0.8)]\<rparr>)]\<rparr>"
  by (simp add: engineFresh_def recordInput_def orNow_def engine0_eq)


lemma engineNull_eq:
  "engineNull = engine0\<lparr>inputs :=
     [(JStr ''u1'', \<lparr>in_timestamp = 1000, in_values = JNull\<rparr>)]\<rparr>"
  by (simp add: engineNull_def recordInput_def orNow_def engine0_eq)

lemma engineFresh_ok: "engineOk engineFresh"
  by (simp add: engineOk_def engineFresh_eq engine0_eq DEFAULT_CONFIG_def stateValue_def
      objectPrototypeNames_def)


















text \<open>
  Claim C1 says that a \<open>recordInput\<close> whose \<open>values\<close> is not a mapping is a no-op
  and can never make \<open>calculateConsensus\<close> fail. The guard
  \<open>typeof values !== 'object'\<close> lets \<open>null\<close> through: \<open>recordInput('u1', null, 1000)\<close>
  on a new engine stores an entry, and the next \<open>calculateConsensus\<close> throws a
  \<open>TypeError\<close> on \<open>input.values[param]\<close>.
\<close>

theorem recordInput_null_payload:
  "engineNull = recordInput 1000 engine0 (JStr ''u1'') JNull (Some 1000)
   \<and> getInputCount engine0 = 0
   \<and> getInputCount engineNull = 1
   \<and> calculateConsensus 1000 engineNull (Some 1000)
       = Inl (TypeError ''Cannot read properties of null'')"
proof -
  have 1: "engineNull = recordInput 1000 engine0 (JStr ''u1'') JNull (Some 1000)"
    by (simp only: engineNull_def)
  have 2: "getInputCount engine0 = 0"
    by (simp add: getInputCount_def engine0_eq)
  have 3: "getInputCount engineNull = 1"
    by (simp add: getInputCount_def engineNull_eq)
  have 4: "calculateConsensus 1000 engineNull (Some 1000)
       = Inl (TypeError ''Cannot read properties of null'')"
    by (simp add: calculateConsensus_def consensusOf_def accumulate_def orNow_def Let_def
        engineNull_eq engine0_eq DEFAULT_CONFIG_def stateValue_def)
  from 1 2 3 4 show ?thesis by blast
qed

theorem recordInput_null_payload_witness:
  "getInputCount (recordInput 1000 engine0 (JStr ''u1'') JNull (Some 1000)) = 1
   \<and> calculateConsensus 1000 (recordInput 1000 engine0 (JStr ''u1'') JNull (Some 1000))
         (Some 1000)
       = Inl (TypeError ''Cannot read properties of null'')"
proof -
  from recordInput_null_payload
  have "getInputCount engineNull = 1
    \<and> calculateConsensus 1000 engineNull (Some 1000)
        = Inl (TypeError ''Cannot read properties of null'')"
    by blast
  then show ?thesis by (simp only: engineNull_def)
qed

text \<open>What the guard does reject is ignored, as the claim says.\<close>

lemma recordInput_rejected:
  "\<not> truthy userId \<or> typeof vals \<noteq> ''object'' \<Longrightarrow> recordInput clock e userId vals ts = e"
  by (auto simp: recordInput_def)

lemma applyEntry_frame:
  "config (applyEntry x e) = config e \<and> overrides (applyEntry x e) = overrides e
   \<and> inputs (applyEntry x e) = inputs e"
  by (cases x) (simp add: applyEntry_def Let_def)

lemma overrideActive_applyEntry: "overrideActive (applyEntry x e) p = overrideActive e p"
  by (simp add: overrideActive_def applyEntry_frame)

lemma applyEntry_other:
  "fst x \<noteq> p \<Longrightarrow> map_of (state (applyEntry x e)) p = map_of (state e) p"
  by (cases x) (simp add: applyEntry_def Let_def update_conv')

lemma applyEntry_skip: "overrideActive e (fst x) \<Longrightarrow> applyEntry x e = e"
  by (cases x) (simp add: applyEntry_def)

lemma applyEntry_same:
  "\<not> overrideActive e k \<Longrightarrow>
   map_of (state (applyEntry (k, v) e)) k =
     Some (num2 (+) (stateValue (state e) k)
             (num2 (*) (num2 (-) v (stateValue (state e) k))
                (Num (CONSENSUS_SMOOTHING (config e)))))"
  by (simp add: applyEntry_def Let_def update_conv')

lemma fold_applyEntry_untouched:
  "p \<notin> fst ` set m \<Longrightarrow> map_of (state (fold applyEntry m e)) p = map_of (state e) p"
  by (induction m arbitrary: e) (auto simp: applyEntry_other)

lemma fold_applyEntry_frame:
  "config (fold applyEntry m e) = config e \<and> overrides (fold applyEntry m e) = overrides e
   \<and> inputs (fold applyEntry m e) = inputs e"
  by (induction m arbitrary: e) (simp_all add: applyEntry_frame)

lemma fold_applyEntry_override:
  "overrideActive e p \<Longrightarrow> map_of (state (fold applyEntry m e)) p = map_of (state e) p"
proof (induction m arbitrary: e)
  case Nil
  then show ?case by simp
next
  case (Cons x m)
  from Cons.prems have a: "overrideActive (applyEntry x e) p"
    by (simp add: overrideActive_applyEntry)
  have "map_of (state (applyEntry x e)) p = map_of (state e) p"
  proof (cases "fst x = p")
    case True
    with Cons.prems show ?thesis by (simp add: applyEntry_skip)
  next
    case False
    then show ?thesis by (rule applyEntry_other)
  qed
  with Cons.IH [OF a] show ?case by simp
qed

lemma fold_applyEntry_update:
  assumes "\<not> overrideActive e p" "distinct (map fst m)" "map_of m p = Some v"
  shows "map_of (state (fold applyEntry m e)) p =
     Some (num2 (+) (stateValue (state e) p)
             (num2 (*) (num2 (-) v (stateValue (state e) p))
                (Num (CONSENSUS_SMOOTHING (config e)))))"
  using assms
proof (induction m arbitrary: e)
  case Nil
  then show ?case by simp
next
  case (Cons x m)
  obtain k w where x: "x = (k, w)" by (cases x)
  show ?case
  proof (cases "k = p")
    case True
    with Cons.prems x have w: "w = v" and notin: "p \<notin> fst ` set m" by auto
    from fold_applyEntry_untouched [OF notin, of "applyEntry x e"]
    show ?thesis
      using Cons.prems(1) by (simp add: x True w applyEntry_same)
  next
    case False
    with Cons.prems x have d: "distinct (map fst m)" and v: "map_of m p = Some v"
      by auto
    from Cons.prems(1) have a: "\<not> overrideActive (applyEntry x e) p"
      by (simp add: overrideActive_applyEntry)
    from False x have s: "stateValue (state (applyEntry x e)) p = stateValue (state e) p"
      by (simp add: stateValue_def applyEntry_other)
    from Cons.IH [OF a d v] show ?thesis
      by (simp add: s applyEntry_frame)
  qed
qed

lemma recordInput_frame:
  "config (recordInput clock e u vals ts) = config e
   \<and> state (recordInput clock e u vals ts) = state e
   \<and> overrides (recordInput clock e u vals ts) = overrides e"
  by (simp add: recordInput_def)

lemma recordInputs_frame:
  "config (recordInputs e cs) = config e \<and> state (recordInputs e cs) = state e
   \<and> overrides (recordInputs e cs) = overrides e"
proof (induction cs arbitrary: e)
  case Nil
  then show ?case by simp
next
  case (Cons c cs)
  obtain clock u vals ts where "c = (clock, u, vals, ts)" by (cases c) auto
  with Cons.IH [of "recordInput clock e u vals ts"] show ?case
    by (simp add: recordInput_frame)
qed

lemma setOverride_mood:
  assumes "''mood'' \<in> set (PARAMETERS (config e))"
  shows "overrideActive (setOverride e ''mood'' (Some r)) ''mood''
     \<and> map_of (state (setOverride e ''mood'' (Some r))) ''mood'' = Some (Num r)"
  using assms by (simp add: setOverride_def overrideActive_def Let_def update_conv')

text \<open>
  Claim C4. For every parameter \<open>p\<close> with an active non-null override
  (\<open>overrides.active && overrides[p] !== null\<close>), \<open>applyConsensus\<close> leaves \<open>state[p]\<close>
  as it is, whatever the consensus holds for \<open>p\<close>. A parameter of the consensus without
  such an override moves to \<open>state[p] + (consensusValue - state[p]) * \<alpha>\<close>. And after
  \<open>setOverride('mood', 0.2)\<close> and any \<open>recordInput\<close> calls, \<open>state.mood\<close> is \<open>0.2\<close>, and
  it is still \<open>0.2\<close> after \<open>applyConsensus(calculateConsensus(now))\<close>.
\<close>

theorem applyConsensus_respects_override:
  "(overrideActive e p \<longrightarrow>
      map_of (state (snd (applyConsensus e consensus))) p = map_of (state e) p)
   \<and> (\<not> overrideActive e p \<and> consensus = Some m \<and> distinct (map fst m) \<and> map_of m p = Some v \<longrightarrow>
        map_of (state (snd (applyConsensus e consensus))) p =
          Some (num2 (+) (stateValue (state e) p)
                  (num2 (*) (num2 (-) v (stateValue (state e) p))
                     (Num (CONSENSUS_SMOOTHING (config e))))))
   \<and> (''mood'' \<in> set (PARAMETERS (config e0)) \<longrightarrow>
        map_of (state (recordInputs (setOverride e0 ''mood'' (Some 0.2)) calls)) ''mood''
          = Some (Num 0.2)
        \<and> (\<forall>e3. mergeTick clock (recordInputs (setOverride e0 ''mood'' (Some 0.2)) calls) now0
                   = Inr e3
                 \<longrightarrow> map_of (state e3) ''mood'' = Some (Num 0.2)))"
proof -
  have 1: "map_of (state (snd (applyConsensus e c))) p = map_of (state e) p"
    if "overrideActive e p" for e c p
    using that by (cases c) (simp_all add: applyConsensus_def Let_def fold_applyEntry_override)
  have 2: "map_of (state (snd (applyConsensus e consensus))) p =
          Some (num2 (+) (stateValue (state e) p)
                  (num2 (*) (num2 (-) v (stateValue (state e) p))
                     (Num (CONSENSUS_SMOOTHING (config e)))))"
    if "\<not> overrideActive e p" "consensus = Some m" "distinct (map fst m)" "map_of m p = Some v"
    using that by (simp add: applyConsensus_def Let_def fold_applyEntry_update)
  have 3: "map_of (state (recordInputs (setOverride e0 ''mood'' (Some 0.2)) calls)) ''mood''
          = Some (Num 0.2)
        \<and> (\<forall>e3. mergeTick clock (recordInputs (setOverride e0 ''mood'' (Some 0.2)) calls) now0
                   = Inr e3
                 \<longrightarrow> map_of (state e3) ''mood'' = Some (Num 0.2))"
    if mood: "''mood'' \<in> set (PARAMETERS (config e0))"
  proof -
    let ?e1 = "setOverride e0 ''mood'' (Some 0.2)"
    let ?e2 = "recordInputs ?e1 calls"
    from setOverride_mood [OF mood, of "0.2"]
    have a1: "overrideActive ?e1 ''mood''"
      and s1: "map_of (state ?e1) ''mood'' = Some (Num 0.2)"
      by simp_all
    from a1 have a2: "overrideActive ?e2 ''mood''"
      by (simp add: overrideActive_def recordInputs_frame)
    from s1 have s2: "map_of (state ?e2) ''mood'' = Some (Num 0.2)"
      by (simp add: recordInputs_frame)
    have "map_of (state e3) ''mood'' = Some (Num 0.2)"
      if "mergeTick clock ?e2 now0 = Inr e3" for e3
    proof -
      from that obtain c where "e3 = snd (applyConsensus ?e2 c)"
        by (auto simp: mergeTick_def split: sum.splits)
      with 1 [OF a2, of c] s2 show ?thesis by simp
    qed
    with s2 show ?thesis by blast
  qed
  from 1 2 3 show ?thesis by blast
qed

lemma engineOverride_eq:
  "engineOverride =
     \<lparr>config = DEFAULT_CONFIG,
      inputs = [(JStr ''u1'', \<lparr>in_timestamp = 1000, in_values = JObj [(''mood'', 0.9)]\<rparr>)],
      state = [(''mood'', Num 0.2), (''tempo'', Num 0.5), (''intensity'', Num 0.5),
               (''density'', Num 0.5)],
      overrides = [(''active'', OBool True), (''mood'', ONum 0.2), (''tempo'', ONull),
                   (''intensity'', ONull), (''density'', ONull)]\<rparr>"
  by (simp add: engineOverride_def setOverride_def recordInput_def orNow_def engine0_eq
      DEFAULT_CONFIG_def Let_def)

theorem applyConsensus_respects_override_witness:
  "overrideActive engineOverride ''mood''
   \<and> calculateConsensus 2000 engineOverride (Some 1000) = Inr (Some [(''mood'', Num 0.9)])
   \<and> map_of (state (snd (applyConsensus engineOverride (Some [(''mood'', Num 0.9)])))) ''mood''
       = Some (Num 0.2)
   \<and> \<not> overrideActive engineFresh ''mood''
   \<and> distinct (map fst [(''mood'', Num 0.8)])
   \<and> map_of [(''mood'', Num 0.8)] ''mood'' = Some (Num 0.8)
   \<and> map_of (state (snd (applyConsensus engineFresh (Some [(''mood'', Num 0.8)])))) ''mood''
       = Some (Num 0.545)
   \<and> ''mood'' \<in> set (PARAMETERS (config engine0))
   \<and> (\<exists>e3. mergeTick 2000 engineOverride (Some 1000) = Inr e3
           \<and> map_of (state e3) ''mood'' = Some (Num 0.2))"
proof -
  have a: "overrideActive engineOverride ''mood''"
    by (simp add: overrideActive_def engineOverride_eq)
  have c: "calculateConsensus 2000 engineOverride (Some 1000) = Inr (Some [(''mood'', Num 0.9)])"
    by (simp add: calculateConsensus_def consensusOf_def accumulate_def orNow_def Let_def
        engineOverride_eq DEFAULT_CONFIG_def stateValue_def)
  have s: "map_of (state engineOverride) ''mood'' = Some (Num 0.2)"
    by (simp add: engineOverride_eq)
  have n: "\<not> overrideActive engineFresh ''mood''"
    by (simp add: overrideActive_def engineFresh_eq engine0_eq)
  have d: "distinct (map fst [(''mood'', Num 0.8)])"
    and m: "map_of [(''mood'', Num 0.8)] ''mood'' = Some (Num 0.8)"
    by simp_all
  have p: "''mood'' \<in> set (PARAMETERS (config engine0))"
    by (simp add: engine0_eq DEFAULT_CONFIG_def)
  from applyConsensus_respects_override
         [of engineOverride "''mood''" "Some [(''mood'', Num 0.9)]"] a s
  have 1: "map_of (state (snd (applyConsensus engineOverride (Some [(''mood'', Num 0.9)])))) ''mood''
       = Some (Num 0.2)"
    by simp
  from applyConsensus_respects_override
         [of engineFresh "''mood''" "Some [(''mood'', Num 0.8)]" "[(''mood'', Num 0.8)]" "Num 0.8"]
       n d m
  have "map_of (state (snd (applyConsensus engineFresh (Some [(''mood'', Num 0.8)])))) ''mood''
       = Some (num2 (+) (stateValue (state engineFresh) ''mood'')
                  (num2 (*) (num2 (-) (Num 0.8) (stateValue (state engineFresh) ''mood''))
                     (Num (CONSENSUS_SMOOTHING (config engineFresh)))))"
    by blast
  then have 2: "map_of (state (snd (applyConsensus engineFresh (Some [(''mood'', Num 0.8)])))) ''mood''
       = Some (Num 0.545)"
    by (simp add: engineFresh_eq engine0_eq DEFAULT_CONFIG_def stateValue_def)
  have t: "\<exists>e3. mergeTick 2000 engineOverride (Some 1000) = Inr e3"
    by (simp add: mergeTick_def c)
  from applyConsensus_respects_override
         [of _ _ _ _ _ engine0 "[(1000, JStr ''u1'', JObj [(''mood'', 0.9)], Some 1000)]"
            2000 "Some 1000"] p t
  have 3: "\<exists>e3. mergeTick 2000 engineOverride (Some 1000) = Inr e3
           \<and> map_of (state e3) ''mood'' = Some (Num 0.2)"
    unfolding engineOverride_def by blast
  from a c 1 n d m 2 p 3 show ?thesis by blast
qed


end
